theory Spec2Isabelle
  imports Complex_Main "HOL-Library.Word" "HOL-Library.Log_Nat"
begin

section \<open>Data model\<close>

text \<open>
  The repository holds two playback clients that share one design:
  \<^verbatim>\<open>clients/simple-js/web/index.js\<close> (prefix \<open>simple_\<close> below) and
  \<^verbatim>\<open>web/index.js\<close> (prefix \<open>web_\<close>). Both keep their session in module-level
  variables and drive it from two callbacks: the read loop of \<^verbatim>\<open>connectAndReceive\<close>
  and the decoder's output callback \<^verbatim>\<open>handleDecodedChunk\<close>.

  Times are JavaScript numbers holding seconds of the audio device clock, modelled as the
  \<^typ>\<open>real\<close> numbers they denote. The functions of the scheduler are given twice:
  with exact addition, for the statements that hold whatever the rounding of a sum is, and
  with the binary64 addition the code performs (suffix \<open>_f64\<close>), for the statements
  that depend on it.
\<close>

text \<open>\<^verbatim>\<open>AudioContext.state\<close> and \<^verbatim>\<open>AudioDecoder.state\<close>, as the code compares them.\<close>

datatype context_state = Suspended | Running | Closed

datatype codec_state = Unconfigured | Configured | CodecClosed

type_synonym byte = "8 word"

text \<open>
  The dictionary handed to \<^verbatim>\<open>new EncodedAudioChunk\<close>; its \<^verbatim>\<open>type\<close> is always
  \<^verbatim>\<open>'key'\<close> and is left out. Timestamp and duration are in microseconds.
\<close>

record chunk =
  timestamp :: real
  chunk_duration :: nat
  data :: "byte list"

text \<open>
  A decoded frame. The scheduler reads one number from it: the \<^verbatim>\<open>duration\<close>, in
  seconds, of the \<^verbatim>\<open>AudioBuffer\<close> created from the frame.
\<close>

record audioData =
  duration :: real

text \<open>
  The module-level variables, and a log of each effect the claims speak about:
  \<open>started\<close> holds one entry \<open>(t, d)\<close> for every \<^verbatim>\<open>sourceNode.start(t)\<close> of a buffer
  of duration \<open>d\<close>, \<open>chunks\<close> every chunk constructed, \<open>decoded\<close> every chunk passed to
  \<^verbatim>\<open>audioDecoder.decode\<close>, \<open>warnings\<close> and \<open>errors\<close> count the calls of
  \<^verbatim>\<open>console.warn\<close> and \<^verbatim>\<open>console.error\<close>. The variable \<^verbatim>\<open>audioContext\<close> is
  \<open>None\<close> while it is null or undefined and carries the state of the context otherwise.
  The root client has no \<^verbatim>\<open>receivedChunkCount\<close>; its functions never touch that field.
\<close>

record client =
  audioContext :: "context_state option"
  nextPlayTime :: real
  receivedChunkCount :: nat
  started :: "(real \<times> real) list"
  chunks :: "chunk list"
  decoded :: "chunk list"
  warnings :: nat
  errors :: nat

definition FRAME_DURATION_MS :: nat where
  "FRAME_DURATION_MS = 5"

text \<open>The module-level initialisers: \<^verbatim>\<open>let nextPlayTime = 0.0\<close>, null objects, empty logs.\<close>

definition fresh :: client where
  "fresh = \<lparr>audioContext = None, nextPlayTime = 0, receivedChunkCount = 0,
            started = [], chunks = [], decoded = [], warnings = 0, errors = 0\<rparr>"

section \<open>Playback Scheduler\<close>

subsection \<open>Session start\<close>




subsection \<open>Scheduling one decoded frame\<close>

text \<open>
  simple-js, line 80:
  \<^verbatim>\<open>const scheduleTime = (nextPlayTime < currentTime) ? currentTime + 0.005 : nextPlayTime;\<close>
\<close>

definition simple_scheduleTime :: "real \<Rightarrow> real \<Rightarrow> real" where
  "simple_scheduleTime npt currentTime =
     (if npt < currentTime then currentTime + 0.005 else npt)"

text \<open>
  root client, line 55:
  \<^verbatim>\<open>const startAt = Math.max(nextPlayTime, audioContext.currentTime);\<close>
\<close>

definition web_startAt :: "real \<Rightarrow> real \<Rightarrow> real" where
  "web_startAt npt currentTime = max npt currentTime"

text \<open>
  \<^verbatim>\<open>handleDecodedChunk\<close> of the simple-js client; \<open>currentTime\<close> is the reading of
  \<^verbatim>\<open>audioContext.currentTime\<close> taken at line 79. A null or closed context makes the
  function warn and return before anything is scheduled.
\<close>

definition simple_handleDecodedChunk :: "client \<Rightarrow> audioData \<Rightarrow> real \<Rightarrow> client" where
  "simple_handleDecodedChunk st ad currentTime =
     (if audioContext st = None \<or> audioContext st = Some Closed
      then st\<lparr>warnings := warnings st + 1\<rparr>
      else
        let scheduleTime = simple_scheduleTime (nextPlayTime st) currentTime
        in st\<lparr>started := started st @ [(scheduleTime, duration ad)],
               nextPlayTime := scheduleTime + duration ad\<rparr>)"

text \<open>
  \<^verbatim>\<open>handleDecodedChunk\<close> of the root client. It has no guard; with
  \<^verbatim>\<open>audioContext\<close> undefined the first use of it raises a TypeError, which the
  \<^verbatim>\<open>catch\<close> block logs.
\<close>

definition web_handleDecodedChunk :: "client \<Rightarrow> audioData \<Rightarrow> real \<Rightarrow> client" where
  "web_handleDecodedChunk st ad currentTime =
     (case audioContext st of
        None \<Rightarrow> st\<lparr>errors := errors st + 1\<rparr>
      | Some c \<Rightarrow>
          let startAt = web_startAt (nextPlayTime st) currentTime
          in st\<lparr>started := started st @ [(startAt, duration ad)],
                 nextPlayTime := startAt + duration ad\<rparr>)"

subsection \<open>The same functions in binary64 arithmetic\<close>

text \<open>
  A JavaScript number is an IEEE 754 binary64 value. Comparisons and \<^verbatim>\<open>Math.max\<close> are
  exact on such values; an addition returns the binary64 value nearest to the exact sum,
  a tie going to the even significand, and a decimal literal denotes the binary64 value
  nearest to it. \<open>to_double x\<close> is that nearest value: \<open>x\<close> is scaled by a power of two
  to a significand of 53 bits, rounded to an integer, and scaled back. The exponent range
  of binary64 is not modelled (no overflow, no subnormal numbers), so \<open>to_double\<close> is
  what the hardware does for every magnitude between about \<open>1e-308\<close> and \<open>1e308\<close>.
\<close>

definition pow2 :: "int \<Rightarrow> real" where
  "pow2 e = (if 0 \<le> e then 2 ^ nat e else 1 / 2 ^ nat (- e))"

text \<open>The integer \<open>e\<close> with \<open>pow2 e \<le> \<bar>x\<bar> < pow2 (e + 1)\<close>, for \<open>x\<close> other than 0.\<close>

definition exponent :: "real \<Rightarrow> int" where
  "exponent x =
     (if 1 \<le> \<bar>x\<bar> then bitlen \<lfloor>\<bar>x\<bar>\<rfloor> - 1 else - bitlen (\<lceil>1 / \<bar>x\<bar>\<rceil> - 1))"

definition round_half_even :: "real \<Rightarrow> int" where
  "round_half_even x =
     (let f = \<lfloor>x\<rfloor>; r = x - of_int f
      in if r < 1 / 2 then f else if 1 / 2 < r then f + 1 else if even f then f else f + 1)"

definition to_double :: "real \<Rightarrow> real" where
  "to_double x =
     (if x = 0 then 0
      else let ulp = pow2 (exponent x - 52) in of_int (round_half_even (x / ulp)) * ulp)"

definition double_add :: "real \<Rightarrow> real \<Rightarrow> real" where
  "double_add x y = to_double (x + y)"

text \<open>simple-js, line 80, with the literal \<^verbatim>\<open>0.005\<close> and the addition as the code has them.\<close>

definition simple_scheduleTime_f64 :: "real \<Rightarrow> real \<Rightarrow> real" where
  "simple_scheduleTime_f64 npt currentTime =
     (if npt < currentTime then double_add currentTime (to_double 0.005) else npt)"

text \<open>simple-js, lines 56 to 86: the cursor update of line 83 is a binary64 addition.\<close>

definition simple_handleDecodedChunk_f64 :: "client \<Rightarrow> audioData \<Rightarrow> real \<Rightarrow> client" where
  "simple_handleDecodedChunk_f64 st ad currentTime =
     (if audioContext st = None \<or> audioContext st = Some Closed
      then st\<lparr>warnings := warnings st + 1\<rparr>
      else
        let scheduleTime = simple_scheduleTime_f64 (nextPlayTime st) currentTime
        in st\<lparr>started := started st @ [(scheduleTime, duration ad)],
               nextPlayTime := double_add scheduleTime (duration ad)\<rparr>)"

text \<open>
  root client, lines 40 to 63: \<^verbatim>\<open>Math.max\<close> of line 55 is exact, the cursor update of
  line 58 is a binary64 addition.
\<close>

definition web_handleDecodedChunk_f64 :: "client \<Rightarrow> audioData \<Rightarrow> real \<Rightarrow> client" where
  "web_handleDecodedChunk_f64 st ad currentTime =
     (case audioContext st of
        None \<Rightarrow> st\<lparr>errors := errors st + 1\<rparr>
      | Some c \<Rightarrow>
          let startAt = web_startAt (nextPlayTime st) currentTime
          in st\<lparr>started := started st @ [(startAt, duration ad)],
                 nextPlayTime := double_add startAt (duration ad)\<rparr>)"

subsection \<open>The decoder's callbacks\<close>

text \<open>
  The decoder reports each submitted chunk through one of two callbacks: \<^verbatim>\<open>output\<close>
  (which is \<^verbatim>\<open>handleDecodedChunk\<close>; \<open>Output ad now\<close> carries the frame and the device
  clock reading during the call) or \<^verbatim>\<open>error\<close>. The error callback of either client
  only reports (\<^verbatim>\<open>console.error\<close>, and a status line in simple-js).
\<close>

datatype decoder_callback = Output audioData real | DecodeError

definition decoder_error :: "client \<Rightarrow> client" where
  "decoder_error st = st\<lparr>errors := errors st + 1\<rparr>"

type_synonym handler = "client \<Rightarrow> audioData \<Rightarrow> real \<Rightarrow> client"

fun on_callback :: "handler \<Rightarrow> client \<Rightarrow> decoder_callback \<Rightarrow> client" where
  "on_callback h st (Output ad now) = h st ad now"
| "on_callback h st DecodeError = decoder_error st"

text \<open>A run of the output callback alone: each frame with the clock reading of its call.\<close>

fun deliver :: "handler \<Rightarrow> client \<Rightarrow> (audioData \<times> real) list \<Rightarrow> client" where
  "deliver h st [] = st"
| "deliver h st ((ad, now) # ds) = deliver h (h st ad now) ds"

text \<open>
  No underrun during a run of deliveries: at every call the clock reading is not past
  the cursor the call finds.
\<close>

fun no_underrun :: "handler \<Rightarrow> client \<Rightarrow> (audioData \<times> real) list \<Rightarrow> bool" where
  "no_underrun h st [] = True"
| "no_underrun h st ((ad, now) # ds) =
     (\<not> nextPlayTime st < now \<and> no_underrun h (h st ad now) ds)"

text \<open>
  The run of the 100-frame scenario, cut after \<open>n\<close> frames: every frame lasts 5 ms (the
  binary64 value of 0.005, which is what 240 samples at 48000 Hz give) and frame \<open>i\<close> is
  delivered when the device clock reads the binary64 value of \<open>i * 0.005\<close> seconds.
\<close>

definition five_ms_frames :: "nat \<Rightarrow> (audioData \<times> real) list" where
  "five_ms_frames n =
     map (\<lambda>i. (\<lparr>duration = to_double 0.005\<rparr>, to_double (real i * 0.005))) [0..<n]"

section \<open>Stream Receiver and Decode Adapter\<close>

text \<open>
  One settled \<^verbatim>\<open>reader.read()\<close>: the promise resolves to \<^verbatim>\<open>{ value, done }\<close>
  (\<open>value\<close> is \<open>None\<close> when undefined) or rejects.
\<close>

datatype read_result = Resolved "byte list option" bool | Rejected

text \<open>
  What the loop body reads from the platform in one iteration: the decoder's state
  (\<open>None\<close> while \<^verbatim>\<open>audioDecoder\<close> is null), which the platform changes on its own;
  the device clock; and whether the call \<^verbatim>\<open>audioDecoder.decode(chunk)\<close>,
  if made, throws.
\<close>

record observation =
  decoderState :: "codec_state option"
  clock :: real
  decodeThrows :: bool

text \<open>
  How far the \<^verbatim>\<open>while (true)\<close> loop got on the reads given: still awaiting the next
  read, left by \<^verbatim>\<open>break\<close>, or left by an exception into the \<^verbatim>\<open>catch\<close> block of
  \<^verbatim>\<open>connectAndReceive\<close>.
\<close>

datatype loop_status = Reading | Ended | Aborted

text \<open>
  simple-js, lines 122 to 138: the body after the \<^verbatim>\<open>done\<close> test. The second
  component tells whether an exception left the body.
\<close>

definition simple_on_value :: "client \<Rightarrow> observation \<Rightarrow> byte list option \<Rightarrow> client \<times> bool" where
  "simple_on_value st ob v =
     (case v of
        None \<Rightarrow> (st, False)
      | Some bytes \<Rightarrow>
          if 0 < length bytes then
            let ts = receivedChunkCount st * FRAME_DURATION_MS * 1000;
                c = \<lparr>timestamp = real ts, chunk_duration = FRAME_DURATION_MS * 1000,
                     data = bytes\<rparr>;
                st1 = st\<lparr>receivedChunkCount := receivedChunkCount st + 1,
                         chunks := chunks st @ [c]\<rparr>
            in if decoderState ob = Some Configured
               then (if decodeThrows ob then (st1, True)
                     else (st1\<lparr>decoded := decoded st1 @ [c]\<rparr>, False))
               else (st1\<lparr>warnings := warnings st1 + 1\<rparr>, False)
          else (st, False))"

text \<open>simple-js, lines 116 to 143: the loop, and the \<^verbatim>\<open>catch\<close> block it can leave into.\<close>

fun simple_read_loop :: "client \<Rightarrow> (observation \<times> read_result) list \<Rightarrow> client \<times> loop_status" where
  "simple_read_loop st [] = (st, Reading)"
| "simple_read_loop st ((ob, Rejected) # rs) = (st\<lparr>errors := errors st + 1\<rparr>, Aborted)"
| "simple_read_loop st ((ob, Resolved v True) # rs) = (st, Ended)"
| "simple_read_loop st ((ob, Resolved v False) # rs) =
     (let (st', threw) = simple_on_value st ob v
      in if threw then (st'\<lparr>errors := errors st' + 1\<rparr>, Aborted)
         else simple_read_loop st' rs)"

definition frameDurationMs :: nat where
  "frameDurationMs = 5"

text \<open>
  root client, lines 91 to 109. The chunk is built outside the inner \<^verbatim>\<open>try\<close>, so a
  TypeError from reading \<^verbatim>\<open>currentTime\<close> of an undefined context leaves the body;
  everything from the state test to the \<^verbatim>\<open>decode\<close> call is inside it, and its
  \<^verbatim>\<open>catch\<close> block logs and goes on.
\<close>

definition web_on_value :: "client \<Rightarrow> observation \<Rightarrow> byte list option \<Rightarrow> client \<times> bool" where
  "web_on_value st ob v =
     (case v of
        None \<Rightarrow> (st, False)
      | Some bytes \<Rightarrow>
          if 0 < length bytes then
            (case audioContext st of
               None \<Rightarrow> (st, True)
             | Some ctx \<Rightarrow>
                 let c = \<lparr>timestamp = clock ob * 1000000,
                          chunk_duration = frameDurationMs * 1000, data = bytes\<rparr>;
                     st1 = st\<lparr>chunks := chunks st @ [c]\<rparr>
                 in (case decoderState ob of
                       None \<Rightarrow> (st1\<lparr>errors := errors st1 + 1\<rparr>, False)
                     | Some s \<Rightarrow>
                         if s = Configured
                         then (if decodeThrows ob then (st1\<lparr>errors := errors st1 + 1\<rparr>, False)
                               else (st1\<lparr>decoded := decoded st1 @ [c]\<rparr>, False))
                         else (st1\<lparr>warnings := warnings st1 + 1\<rparr>, False)))
          else (st, False))"

text \<open>root client, lines 84 to 113.\<close>

fun web_read_loop :: "client \<Rightarrow> (observation \<times> read_result) list \<Rightarrow> client \<times> loop_status" where
  "web_read_loop st [] = (st, Reading)"
| "web_read_loop st ((ob, Rejected) # rs) = (st\<lparr>errors := errors st + 1\<rparr>, Aborted)"
| "web_read_loop st ((ob, Resolved v True) # rs) = (st, Ended)"
| "web_read_loop st ((ob, Resolved v False) # rs) =
     (let (st', threw) = web_on_value st ob v
      in if threw then (st'\<lparr>errors := errors st' + 1\<rparr>, Aborted)
         else web_read_loop st' rs)"

subsection \<open>Read loop and decoder callbacks together\<close>

text \<open>
  A session from the first read on. Each entry is one iteration of the read loop: what the
  loop observes, the settled read, and the callback the decoder makes for the chunk of
  this iteration if a \<^verbatim>\<open>decode\<close> call is made and returns (the log \<open>decoded\<close> has grown).
  The callback is run right after its iteration. The platform makes it later, between
  iterations and in the order of submission; the iteration and the callback write
  different variables and only add to the two counters, so a callback may be moved past
  any number of iterations without changing the state reached (the two lemmas
  \<open>simple_callback_commutes\<close> and \<open>web_callback_commutes\<close> below).
\<close>

type_synonym submission = "observation \<times> read_result \<times> decoder_callback"

fun simple_session :: "client \<Rightarrow> submission list \<Rightarrow> client \<times> loop_status" where
  "simple_session st [] = (st, Reading)"
| "simple_session st ((ob, r, cb) # rs) =
     (let (st', status) = simple_read_loop st [(ob, r)]
      in if status = Reading
         then simple_session
                (if decoded st' = decoded st then st'
                 else on_callback simple_handleDecodedChunk_f64 st' cb) rs
         else (st', status))"

fun web_session :: "client \<Rightarrow> submission list \<Rightarrow> client \<times> loop_status" where
  "web_session st [] = (st, Reading)"
| "web_session st ((ob, r, cb) # rs) =
     (let (st', status) = web_read_loop st [(ob, r)]
      in if status = Reading
         then web_session
                (if decoded st' = decoded st then st'
                 else on_callback web_handleDecodedChunk_f64 st' cb) rs
         else (st', status))"

text \<open>
  Three kinds of entry: a non-empty read whose chunk is decoded and comes back through the
  output callback; one whose chunk the decoder reports through its error callback; one
  whose \<^verbatim>\<open>decode\<close> call throws.
\<close>

fun delivered :: "submission \<Rightarrow> bool" where
  "delivered (ob, Resolved (Some bytes) False, Output ad now) =
     (bytes \<noteq> [] \<and> decoderState ob = Some Configured \<and> \<not> decodeThrows ob)"
| "delivered (ob, r, cb) = False"

fun decode_error :: "submission \<Rightarrow> bool" where
  "decode_error (ob, Resolved (Some bytes) False, DecodeError) =
     (bytes \<noteq> [] \<and> decoderState ob = Some Configured \<and> \<not> decodeThrows ob)"
| "decode_error (ob, r, cb) = False"

fun decode_throws :: "submission \<Rightarrow> bool" where
  "decode_throws (ob, Resolved (Some bytes) False, cb) =
     (bytes \<noteq> [] \<and> decoderState ob = Some Configured \<and> decodeThrows ob)"
| "decode_throws (ob, r, cb) = False"

text \<open>The decoded frames of a list of entries, each with the clock reading of its callback.\<close>

fun frames :: "submission list \<Rightarrow> (audioData \<times> real) list" where
  "frames [] = []"
| "frames ((ob, r, Output ad now) # rs) = (ad, now) # frames rs"
| "frames ((ob, r, DecodeError) # rs) = frames rs"

section \<open>Frame Ring Buffer\<close>

text \<open>
  Modelled from the spec: the Frame Ring Buffer. It is the crate \<^verbatim>\<open>circular-queue2\<close>
  under \<^verbatim>\<open>deps/circular-queue\<close>, of which only the manifest \<^verbatim>\<open>Cargo.toml\<close> is among
  the sources. The spec gives a fixed capacity \<open>C\<close>, contents in insertion order, and
  the occupancy query \<^verbatim>\<open>len()\<close>.
\<close>

record 'a ring =
  capacity :: nat
  items :: "'a list"

text \<open>Modelled from the spec: an empty buffer of capacity \<open>C\<close> (the constructor is missing).\<close>

definition with_capacity :: "nat \<Rightarrow> 'a ring" where
  "with_capacity C = \<lparr>capacity = C, items = []\<rparr>"

text \<open>Modelled from the spec: \<^verbatim>\<open>len()\<close> and \<^verbatim>\<open>is_full()\<close> of the missing crate.\<close>

definition len :: "'a ring \<Rightarrow> nat" where
  "len q = length (items q)"

definition is_full :: "'a ring \<Rightarrow> bool" where
  "is_full q = (len q = capacity q)"

text \<open>
  Modelled from the spec: \<^verbatim>\<open>push(item)\<close> of the missing crate, "if full, overwrites
  the oldest element". A full buffer without an oldest element (capacity 0) has nothing
  to overwrite and stays as it is.
\<close>

definition push :: "'a ring \<Rightarrow> 'a \<Rightarrow> 'a ring" where
  "push q x =
     (if is_full q
      then (case items q of [] \<Rightarrow> q | oldest # rest \<Rightarrow> q\<lparr>items := rest @ [x]\<rparr>)
      else q\<lparr>items := items q @ [x]\<rparr>)"

text \<open>Modelled from the spec: a sequence of \<^verbatim>\<open>push\<close> operations, first element first.\<close>

fun pushes :: "'a ring \<Rightarrow> 'a list \<Rightarrow> 'a ring" where
  "pushes q [] = q"
| "pushes q (x # xs) = pushes (push q x) xs"

section \<open>Properties of the Playback Scheduler\<close>

subsection \<open>One call of the output callback\<close>







lemma simple_handle_context:
  "audioContext (simple_handleDecodedChunk st ad now) = audioContext st"
  by (simp add: simple_handleDecodedChunk_def Let_def)



lemma web_handle_context:
  "audioContext (web_handleDecodedChunk st ad now) = audioContext st"
  by (simp add: web_handleDecodedChunk_def Let_def split: option.splits)






subsection \<open>Runs of the output callback\<close>

lemma deliver_append: "deliver h st (xs @ ys) = deliver h (deliver h st xs) ys"
  by (induction xs arbitrary: st) auto











section \<open>Properties of the Stream Receiver\<close>

lemma simple_on_value_skip:
  "simple_on_value st ob None = (st, False)" "simple_on_value st ob (Some []) = (st, False)"
  by (simp_all add: simple_on_value_def)

lemma web_on_value_skip:
  "web_on_value st ob None = (st, False)" "web_on_value st ob (Some []) = (st, False)"
  by (simp_all add: web_on_value_def)

lemma simple_on_value_accept:
  assumes "bytes \<noteq> []"
  shows "simple_on_value st ob (Some bytes) =
     (let c = \<lparr>timestamp = real (receivedChunkCount st * FRAME_DURATION_MS * 1000),
                chunk_duration = FRAME_DURATION_MS * 1000, data = bytes\<rparr>;
          st1 = st\<lparr>receivedChunkCount := receivedChunkCount st + 1, chunks := chunks st @ [c]\<rparr>
      in if decoderState ob = Some Configured
         then (if decodeThrows ob then (st1, True)
               else (st1\<lparr>decoded := decoded st1 @ [c]\<rparr>, False))
         else (st1\<lparr>warnings := warnings st1 + 1\<rparr>, False))"
  using assms by (simp add: simple_on_value_def Let_def)

lemma simple_on_value_count:
  "receivedChunkCount (fst (simple_on_value st ob v)) = receivedChunkCount st
     \<and> chunks (fst (simple_on_value st ob v)) = chunks st
   \<or> receivedChunkCount (fst (simple_on_value st ob v)) = receivedChunkCount st + 1
     \<and> map timestamp (chunks (fst (simple_on_value st ob v)))
        = map timestamp (chunks st) @ [real (receivedChunkCount st * FRAME_DURATION_MS * 1000)]"
  by (simp add: simple_on_value_def Let_def split: option.splits)

lemma simple_loop_timestamps:
  "\<exists>k. receivedChunkCount (fst (simple_read_loop st rs)) = receivedChunkCount st + k
     \<and> map timestamp (chunks (fst (simple_read_loop st rs)))
        = map timestamp (chunks st)
          @ map (\<lambda>i. real (i * FRAME_DURATION_MS * 1000))
              [receivedChunkCount st ..< receivedChunkCount st + k]"
proof (induction st rs rule: simple_read_loop.induct)
  case (1 st)
  show ?case by (intro exI [of _ 0]) simp
next
  case (2 st ob rs)
  show ?case by (intro exI [of _ 0]) simp
next
  case (3 st ob v rs)
  show ?case by (intro exI [of _ 0]) simp
next
  case (4 st ob v rs)
  obtain st' threw where ov: "simple_on_value st ob v = (st', threw)"
    by (cases "simple_on_value st ob v")
  let ?f = "\<lambda>i. real (i * FRAME_DURATION_MS * 1000)"
  let ?res = "fst (simple_read_loop st ((ob, Resolved v False) # rs))"
  have "\<exists>k'. receivedChunkCount ?res = receivedChunkCount st' + k'
     \<and> map timestamp (chunks ?res)
        = map timestamp (chunks st') @ map ?f [receivedChunkCount st' ..< receivedChunkCount st' + k']"
  proof (cases threw)
    case True
    then show ?thesis using ov by (intro exI [of _ 0]) simp
  next
    case False
    with 4 [of "(st', threw)" st' threw] ov show ?thesis by simp
  qed
  then obtain k' where k': "receivedChunkCount ?res = receivedChunkCount st' + k'"
    "map timestamp (chunks ?res)
        = map timestamp (chunks st') @ map ?f [receivedChunkCount st' ..< receivedChunkCount st' + k']"
    by blast
  from simple_on_value_count [of st ob v] ov
  consider "receivedChunkCount st' = receivedChunkCount st" "chunks st' = chunks st"
    | "receivedChunkCount st' = receivedChunkCount st + 1"
      "map timestamp (chunks st') = map timestamp (chunks st) @ [?f (receivedChunkCount st)]"
    by auto
  then show ?case
  proof cases
    case 1
    with k' show ?thesis by (intro exI [of _ k']) simp
  next
    case 2
    have "[receivedChunkCount st ..< receivedChunkCount st + (Suc k')]
        = receivedChunkCount st # [receivedChunkCount st + 1 ..< receivedChunkCount st + 1 + k']"
      by (simp add: upt_rec)
    with k' 2 show ?thesis by (intro exI [of _ "Suc k'"]) simp
  qed
qed

lemma web_on_value_accept:
  assumes "bytes \<noteq> []" and "audioContext st = Some ctx"
  shows "web_on_value st ob (Some bytes) =
     (let c = \<lparr>timestamp = clock ob * 1000000, chunk_duration = frameDurationMs * 1000,
                data = bytes\<rparr>;
          st1 = st\<lparr>chunks := chunks st @ [c]\<rparr>
      in case decoderState ob of
           None \<Rightarrow> (st1\<lparr>errors := errors st1 + 1\<rparr>, False)
         | Some s \<Rightarrow>
             if s = Configured
             then (if decodeThrows ob then (st1\<lparr>errors := errors st1 + 1\<rparr>, False)
                   else (st1\<lparr>decoded := decoded st1 @ [c]\<rparr>, False))
             else (st1\<lparr>warnings := warnings st1 + 1\<rparr>, False))"
  using assms by (simp add: web_on_value_def Let_def)

lemma strictly_increasing_timestamps:
  "sorted_wrt (<) (map (\<lambda>i. real (i * FRAME_DURATION_MS * 1000)) [m..<n])"
proof -
  have "sorted_wrt (\<lambda>x y. real (x * FRAME_DURATION_MS * 1000) < real (y * FRAME_DURATION_MS * 1000))
          [m..<n]"
    by (rule sorted_wrt_mono_rel [OF _ sorted_wrt_upt]) (simp add: FRAME_DURATION_MS_def)
  then show ?thesis by (simp only: sorted_wrt_map)
qed

text \<open>
  Claim C5, as the code has it. In the simple-js client every non-empty read result yields
  a chunk whose timestamp is \<^verbatim>\<open>receivedChunkCount * FRAME_DURATION_MS * 1000\<close>
  microseconds, the counter is incremented by one, and the payload is the bytes read;
  from a session start (counter 0) the timestamps of the chunks of any run of the loop
  are \<open>0, 5000, 10000, ...\<close> in order, strictly increasing. The root client keeps no
  counter: its chunk's timestamp is the device clock reading times 1000000.
\<close>

theorem chunk_index_and_timestamp:
  assumes "bytes \<noteq> []"
  shows "chunks (fst (simple_on_value st ob (Some bytes)))
           = chunks st @ [\<lparr>timestamp = real (receivedChunkCount st * FRAME_DURATION_MS * 1000),
                chunk_duration = FRAME_DURATION_MS * 1000, data = bytes\<rparr>]
    \<and> receivedChunkCount (fst (simple_on_value st ob (Some bytes))) = receivedChunkCount st + 1
    \<and> (receivedChunkCount st = 0 \<and> chunks st = [] \<longrightarrow>
          map timestamp (chunks (fst (simple_read_loop st rs)))
            = map (\<lambda>i. real (i * FRAME_DURATION_MS * 1000))
                [0..<length (chunks (fst (simple_read_loop st rs)))]
        \<and> receivedChunkCount (fst (simple_read_loop st rs))
            = length (chunks (fst (simple_read_loop st rs)))
        \<and> sorted_wrt (<) (map timestamp (chunks (fst (simple_read_loop st rs)))))
    \<and> (audioContext st = Some ctx \<longrightarrow>
          chunks (fst (web_on_value st ob (Some bytes)))
            = chunks st @ [\<lparr>timestamp = clock ob * 1000000,
                 chunk_duration = frameDurationMs * 1000, data = bytes\<rparr>]
        \<and> receivedChunkCount (fst (web_on_value st ob (Some bytes))) = receivedChunkCount st)"
proof -
  have a: "chunks (fst (simple_on_value st ob (Some bytes)))
           = chunks st @ [\<lparr>timestamp = real (receivedChunkCount st * FRAME_DURATION_MS * 1000),
                chunk_duration = FRAME_DURATION_MS * 1000, data = bytes\<rparr>]"
    and b: "receivedChunkCount (fst (simple_on_value st ob (Some bytes))) = receivedChunkCount st + 1"
    by (simp_all add: simple_on_value_accept [OF assms] Let_def)
  have c: "receivedChunkCount st = 0 \<and> chunks st = [] \<longrightarrow>
          map timestamp (chunks (fst (simple_read_loop st rs)))
            = map (\<lambda>i. real (i * FRAME_DURATION_MS * 1000))
                [0..<length (chunks (fst (simple_read_loop st rs)))]
        \<and> receivedChunkCount (fst (simple_read_loop st rs))
            = length (chunks (fst (simple_read_loop st rs)))
        \<and> sorted_wrt (<) (map timestamp (chunks (fst (simple_read_loop st rs))))"
  proof
    assume init: "receivedChunkCount st = 0 \<and> chunks st = []"
    let ?st' = "fst (simple_read_loop st rs)"
    from simple_loop_timestamps [of st rs] init obtain k where
      k: "receivedChunkCount ?st' = k"
        "map timestamp (chunks ?st') = map (\<lambda>i. real (i * FRAME_DURATION_MS * 1000)) [0..<k]"
      by auto
    have "length (map timestamp (chunks ?st')) = k"
      unfolding k(2) by simp
    then have len: "length (chunks ?st') = k" by simp
    show "map timestamp (chunks ?st')
            = map (\<lambda>i. real (i * FRAME_DURATION_MS * 1000)) [0..<length (chunks ?st')]
        \<and> receivedChunkCount ?st' = length (chunks ?st')
        \<and> sorted_wrt (<) (map timestamp (chunks ?st'))"
      using k strictly_increasing_timestamps [of 0 k] by (simp add: len)
  qed
  have d: "audioContext st = Some ctx \<longrightarrow>
          chunks (fst (web_on_value st ob (Some bytes)))
            = chunks st @ [\<lparr>timestamp = clock ob * 1000000,
                 chunk_duration = frameDurationMs * 1000, data = bytes\<rparr>]
        \<and> receivedChunkCount (fst (web_on_value st ob (Some bytes))) = receivedChunkCount st"
    using assms by (simp add: web_on_value_def Let_def split: option.splits)
  from a b c d show ?thesis by blast
qed

theorem chunk_index_and_timestamp_witness:
  "map timestamp (chunks (fst (simple_read_loop (fresh\<lparr>audioContext := Some Running\<rparr>)
     [(\<lparr>decoderState = Some Configured, clock = 0.25, decodeThrows = False\<rparr>, Resolved (Some [1]) False),
      (\<lparr>decoderState = Some Configured, clock = 0.25, decodeThrows = False\<rparr>, Resolved (Some [2]) False)])))
     = [0, 5000]
   \<and> chunks (fst (simple_on_value (fresh\<lparr>audioContext := Some Running\<rparr>)
        \<lparr>decoderState = Some Configured, clock = 0.25, decodeThrows = False\<rparr> (Some [1])))
     = [\<lparr>timestamp = 0, chunk_duration = 5000, data = [1]\<rparr>]
   \<and> chunks (fst (web_on_value (fresh\<lparr>audioContext := Some Running\<rparr>)
        \<lparr>decoderState = Some Configured, clock = 0.25, decodeThrows = False\<rparr> (Some [1])))
     = [\<lparr>timestamp = 250000, chunk_duration = 5000, data = [1]\<rparr>]"
  using chunk_index_and_timestamp [where bytes = "[1]" and st = "fresh\<lparr>audioContext := Some Running\<rparr>"
      and ctx = Running
      and ob = "\<lparr>decoderState = Some Configured, clock = 0.25, decodeThrows = False\<rparr>"
      and rs = "[(\<lparr>decoderState = Some Configured, clock = 0.25, decodeThrows = False\<rparr>, Resolved (Some [1]) False),
      (\<lparr>decoderState = Some Configured, clock = 0.25, decodeThrows = False\<rparr>, Resolved (Some [2]) False)]"]
  by (simp add: fresh_def simple_on_value_def web_on_value_def FRAME_DURATION_MS_def
      frameDurationMs_def Let_def)

text \<open>
  Claim C5 as stated fails on the root client: two non-empty reads taken while the device
  clock reads 0.25 both get the timestamp 250000, which is neither \<open>0 * 5000\<close> nor
  \<open>1 * 5000\<close>, and the two are not strictly increasing; the counter stays at 0.
\<close>

theorem web_timestamp_counterexample:
  "map timestamp (chunks (fst (web_read_loop (fresh\<lparr>audioContext := Some Running\<rparr>)
     [(\<lparr>decoderState = Some Configured, clock = 0.25, decodeThrows = False\<rparr>, Resolved (Some [1]) False),
      (\<lparr>decoderState = Some Configured, clock = 0.25, decodeThrows = False\<rparr>, Resolved (Some [2]) False)])))
     = [250000, 250000]
   \<and> [250000, 250000] \<noteq> [real (0 * frameDurationMs * 1000), real (1 * frameDurationMs * 1000)]
   \<and> \<not> sorted_wrt (<) [250000, 250000 :: real]
   \<and> receivedChunkCount (fst (web_read_loop (fresh\<lparr>audioContext := Some Running\<rparr>)
     [(\<lparr>decoderState = Some Configured, clock = 0.25, decodeThrows = False\<rparr>, Resolved (Some [1]) False),
      (\<lparr>decoderState = Some Configured, clock = 0.25, decodeThrows = False\<rparr>, Resolved (Some [2]) False)]))
     = 0"
  by (simp add: fresh_def web_on_value_def frameDurationMs_def Let_def)

subsection \<open>How the read loop ends\<close>

lemma simple_loop_append:
  "simple_read_loop st (xs @ ys) =
     (if snd (simple_read_loop st xs) = Reading
      then simple_read_loop (fst (simple_read_loop st xs)) ys
      else simple_read_loop st xs)"
proof (induction st xs rule: simple_read_loop.induct)
  case (4 st ob v rs)
  obtain st' threw where ov: "simple_on_value st ob v = (st', threw)"
    by (cases "simple_on_value st ob v")
  show ?case
  proof (cases threw)
    case True
    with ov show ?thesis by simp
  next
    case False
    with 4 [of "(st', threw)" st' threw] ov show ?thesis by simp
  qed
qed simp_all

lemma web_loop_append:
  "web_read_loop st (xs @ ys) =
     (if snd (web_read_loop st xs) = Reading
      then web_read_loop (fst (web_read_loop st xs)) ys
      else web_read_loop st xs)"
proof (induction st xs rule: web_read_loop.induct)
  case (4 st ob v rs)
  obtain st' threw where ov: "web_on_value st ob v = (st', threw)"
    by (cases "web_on_value st ob v")
  show ?case
  proof (cases threw)
    case True
    with ov show ?thesis by simp
  next
    case False
    with 4 [of "(st', threw)" st' threw] ov show ?thesis by simp
  qed
qed simp_all

text \<open>
  Claim C6, as the code has it. Take either client, and let its loop still be reading after
  the reads \<open>xs\<close>. A read that resolves with \<^verbatim>\<open>done\<close> ends the loop with the state it
  has, and a read that rejects leaves it through the \<^verbatim>\<open>catch\<close> block, which logs; in both
  cases the result is the same whatever reads \<open>rs\<close> would follow, so nothing more is read,
  decoded or retried. A read of zero bytes does neither: the loop skips it and goes on with
  the reads after it, as if it had not occurred. Each client has its own hypothesis: the
  two loops need not be reading at the same time.
\<close>

theorem read_loop_termination:
  "(snd (simple_read_loop st xs) = Reading \<longrightarrow>
      simple_read_loop st (xs @ (ob, Resolved v True) # rs)
        = (fst (simple_read_loop st xs), Ended)
    \<and> simple_read_loop st (xs @ (ob, Rejected) # rs)
        = ((fst (simple_read_loop st xs))
             \<lparr>errors := errors (fst (simple_read_loop st xs)) + 1\<rparr>, Aborted)
    \<and> simple_read_loop st (xs @ (ob, Resolved (Some []) False) # rs)
        = simple_read_loop st (xs @ rs))
   \<and> (snd (web_read_loop st xs) = Reading \<longrightarrow>
      web_read_loop st (xs @ (ob, Resolved v True) # rs)
        = (fst (web_read_loop st xs), Ended)
    \<and> web_read_loop st (xs @ (ob, Rejected) # rs)
        = ((fst (web_read_loop st xs))
             \<lparr>errors := errors (fst (web_read_loop st xs)) + 1\<rparr>, Aborted)
    \<and> web_read_loop st (xs @ (ob, Resolved (Some []) False) # rs)
        = web_read_loop st (xs @ rs))"
  by (simp add: simple_loop_append web_loop_append simple_on_value_skip web_on_value_skip)

theorem read_loop_termination_witness:
  "snd (simple_read_loop (fresh\<lparr>audioContext := Some Running\<rparr>)
     [(\<lparr>decoderState = Some Configured, clock = 0, decodeThrows = False\<rparr>, Resolved (Some [1]) False)])
     = Reading
   \<and> simple_read_loop (fresh\<lparr>audioContext := Some Running\<rparr>)
     ([(\<lparr>decoderState = Some Configured, clock = 0, decodeThrows = False\<rparr>, Resolved (Some [1]) False)]
      @ (\<lparr>decoderState = Some Configured, clock = 0, decodeThrows = False\<rparr>, Resolved None True)
      # [(\<lparr>decoderState = Some Configured, clock = 0, decodeThrows = False\<rparr>, Resolved (Some [2]) False)])
     = (fresh\<lparr>audioContext := Some Running, receivedChunkCount := 1,
          chunks := [\<lparr>timestamp = 0, chunk_duration = 5000, data = [1]\<rparr>],
          decoded := [\<lparr>timestamp = 0, chunk_duration = 5000, data = [1]\<rparr>]\<rparr>, Ended)
   \<and> snd (web_read_loop (fresh\<lparr>audioContext := Some Running\<rparr>)
     [(\<lparr>decoderState = Some Configured, clock = 0, decodeThrows = True\<rparr>, Resolved (Some [1]) False)])
     = Reading
   \<and> snd (simple_read_loop (fresh\<lparr>audioContext := Some Running\<rparr>)
     [(\<lparr>decoderState = Some Configured, clock = 0, decodeThrows = True\<rparr>, Resolved (Some [1]) False)])
     = Aborted
   \<and> web_read_loop (fresh\<lparr>audioContext := Some Running\<rparr>)
     ([(\<lparr>decoderState = Some Configured, clock = 0, decodeThrows = True\<rparr>, Resolved (Some [1]) False)]
      @ (\<lparr>decoderState = Some Configured, clock = 0, decodeThrows = False\<rparr>, Rejected)
      # [(\<lparr>decoderState = Some Configured, clock = 0, decodeThrows = False\<rparr>, Resolved (Some [2]) False)])
     = (fresh\<lparr>audioContext := Some Running,
          chunks := [\<lparr>timestamp = 0, chunk_duration = 5000, data = [1]\<rparr>],
          errors := 2\<rparr>, Aborted)"
proof -
  let ?ok = "\<lparr>decoderState = Some Configured, clock = 0, decodeThrows = False\<rparr>"
  let ?thr = "\<lparr>decoderState = Some Configured, clock = 0, decodeThrows = True\<rparr>"
  let ?st = "fresh\<lparr>audioContext := Some Running\<rparr>"
  have s: "snd (simple_read_loop ?st [(?ok, Resolved (Some [1]) False)]) = Reading"
    by (simp add: fresh_def simple_on_value_def Let_def)
  have w: "snd (web_read_loop ?st [(?thr, Resolved (Some [1]) False)]) = Reading"
    by (simp add: fresh_def web_on_value_def Let_def)
  from read_loop_termination [of ?st "[(?ok, Resolved (Some [1]) False)]" ?ok None
      "[(?ok, Resolved (Some [2]) False)]"] s
    read_loop_termination [of ?st "[(?thr, Resolved (Some [1]) False)]" ?ok None
      "[(?ok, Resolved (Some [2]) False)]"] w
  show ?thesis
    by (simp add: fresh_def simple_on_value_def web_on_value_def FRAME_DURATION_MS_def
        frameDurationMs_def Let_def)
qed

text \<open>
  Claim C6 as stated fails: after a read of zero bytes the loop of the simple-js client is
  still reading, and the read that follows is turned into a chunk and decoded.
\<close>

theorem zero_length_read_counterexample:
  "snd (simple_read_loop fresh
     [(\<lparr>decoderState = Some Configured, clock = 0, decodeThrows = False\<rparr>, Resolved (Some []) False)])
     = Reading
   \<and> Reading \<noteq> Ended
   \<and> decoded (fst (simple_read_loop fresh
     [(\<lparr>decoderState = Some Configured, clock = 0, decodeThrows = False\<rparr>, Resolved (Some []) False),
      (\<lparr>decoderState = Some Configured, clock = 0, decodeThrows = False\<rparr>, Resolved (Some [1]) False)]))
     = [\<lparr>timestamp = 0, chunk_duration = 5000, data = [1]\<rparr>]"
  by (simp add: fresh_def simple_on_value_def FRAME_DURATION_MS_def Let_def)

subsection \<open>A decoder that is not configured\<close>

lemma simple_on_value_payloads:
  assumes "map data (decoded s) = map data (decoded t)"
  shows "map data (decoded (fst (simple_on_value s ob v)))
           = map data (decoded (fst (simple_on_value t ob v)))
       \<and> snd (simple_on_value s ob v) = snd (simple_on_value t ob v)"
  using assms by (simp add: simple_on_value_def Let_def split: option.splits)

lemma simple_loop_payloads:
  assumes "map data (decoded s) = map data (decoded t)"
  shows "map data (decoded (fst (simple_read_loop s rs)))
           = map data (decoded (fst (simple_read_loop t rs)))
       \<and> snd (simple_read_loop s rs) = snd (simple_read_loop t rs)"
  using assms
proof (induction s rs arbitrary: t rule: simple_read_loop.induct)
  case (4 st ob v rs)
  obtain st' threw where ov: "simple_on_value st ob v = (st', threw)"
    by (cases "simple_on_value st ob v")
  obtain t' threw' where ov': "simple_on_value t ob v = (t', threw')"
    by (cases "simple_on_value t ob v")
  from simple_on_value_payloads [OF "4.prems", of ob v] ov ov'
  have eq: "map data (decoded st') = map data (decoded t')" and thr: "threw' = threw"
    by simp_all
  show ?case
  proof (cases threw)
    case True
    with ov ov' eq thr show ?thesis by simp
  next
    case False
    from "4.IH" [of "(st', threw)" st' threw t'] ov False eq
    have "map data (decoded (fst (simple_read_loop st' rs)))
           = map data (decoded (fst (simple_read_loop t' rs)))
       \<and> snd (simple_read_loop st' rs) = snd (simple_read_loop t' rs)"
      by simp
    with ov ov' thr False show ?thesis by simp
  qed
qed simp_all

lemma web_on_value_payloads:
  assumes "map data (decoded s) = map data (decoded t)" and "audioContext s = audioContext t"
  shows "map data (decoded (fst (web_on_value s ob v)))
           = map data (decoded (fst (web_on_value t ob v)))
       \<and> audioContext (fst (web_on_value s ob v)) = audioContext (fst (web_on_value t ob v))
       \<and> snd (web_on_value s ob v) = snd (web_on_value t ob v)"
  using assms by (simp add: web_on_value_def Let_def split: option.splits)

lemma web_loop_payloads:
  assumes "map data (decoded s) = map data (decoded t)" and "audioContext s = audioContext t"
  shows "map data (decoded (fst (web_read_loop s rs)))
           = map data (decoded (fst (web_read_loop t rs)))
       \<and> snd (web_read_loop s rs) = snd (web_read_loop t rs)"
  using assms
proof (induction s rs arbitrary: t rule: web_read_loop.induct)
  case (4 st ob v rs)
  obtain st' threw where ov: "web_on_value st ob v = (st', threw)"
    by (cases "web_on_value st ob v")
  obtain t' threw' where ov': "web_on_value t ob v = (t', threw')"
    by (cases "web_on_value t ob v")
  from web_on_value_payloads [OF "4.prems", of ob v] ov ov'
  have eq: "map data (decoded st') = map data (decoded t')"
    and ctx: "audioContext st' = audioContext t'" and thr: "threw' = threw"
    by simp_all
  show ?case
  proof (cases threw)
    case True
    with ov ov' eq thr show ?thesis by simp
  next
    case False
    from "4.IH" [of "(st', threw)" st' threw t'] ov False eq ctx
    have "map data (decoded (fst (web_read_loop st' rs)))
           = map data (decoded (fst (web_read_loop t' rs)))
       \<and> snd (web_read_loop st' rs) = snd (web_read_loop t' rs)"
      by simp
    with ov ov' thr False show ?thesis by simp
  qed
qed simp_all

text \<open>
  Claim C7. Let a non-empty read arrive while the decoder exists and is in a state \<open>s\<close>
  other than configured. Either client then warns once, makes no \<^verbatim>\<open>decode\<close> call, and
  its loop goes on with the reads \<open>rs\<close> that follow (the simple-js client has counted the
  chunk). Nothing is kept for a retry: the payloads decoded in the rest of the run, and
  the way the loop ends, are those of the run without the dropped read. The next read is
  tested on its own: if the decoder is configured by then, its chunk is decoded. The
  simple-js client treats a null decoder the same way.
\<close>

theorem unconfigured_decoder_drops_frame:
  assumes "bytes \<noteq> []" and "decoderState ob = Some s" and "s \<noteq> Configured"
    and "audioContext st = Some ctx"
  shows "simple_read_loop st ((ob, Resolved (Some bytes) False) # rs)
           = simple_read_loop
               (st\<lparr>receivedChunkCount := receivedChunkCount st + 1,
                   chunks := chunks st
                     @ [\<lparr>timestamp = real (receivedChunkCount st * FRAME_DURATION_MS * 1000),
                          chunk_duration = FRAME_DURATION_MS * 1000, data = bytes\<rparr>],
                   warnings := warnings st + 1\<rparr>) rs
    \<and> web_read_loop st ((ob, Resolved (Some bytes) False) # rs)
           = web_read_loop
               (st\<lparr>chunks := chunks st
                     @ [\<lparr>timestamp = clock ob * 1000000,
                          chunk_duration = frameDurationMs * 1000, data = bytes\<rparr>],
                   warnings := warnings st + 1\<rparr>) rs
    \<and> decoded (fst (simple_on_value st ob (Some bytes))) = decoded st
    \<and> decoded (fst (web_on_value st ob (Some bytes))) = decoded st
    \<and> map data (decoded (fst (simple_read_loop st ((ob, Resolved (Some bytes) False) # rs))))
           = map data (decoded (fst (simple_read_loop st rs)))
    \<and> snd (simple_read_loop st ((ob, Resolved (Some bytes) False) # rs))
           = snd (simple_read_loop st rs)
    \<and> map data (decoded (fst (web_read_loop st ((ob, Resolved (Some bytes) False) # rs))))
           = map data (decoded (fst (web_read_loop st rs)))
    \<and> snd (web_read_loop st ((ob, Resolved (Some bytes) False) # rs))
           = snd (web_read_loop st rs)
    \<and> (bytes' \<noteq> [] \<and> decoderState ob' = Some Configured \<and> \<not> decodeThrows ob' \<longrightarrow>
          map data (decoded (fst (simple_read_loop st
            [(ob, Resolved (Some bytes) False), (ob', Resolved (Some bytes') False)])))
            = map data (decoded st) @ [bytes']
        \<and> map data (decoded (fst (web_read_loop st
            [(ob, Resolved (Some bytes) False), (ob', Resolved (Some bytes') False)])))
            = map data (decoded st) @ [bytes'])
    \<and> (decoderState ob0 = None \<longrightarrow>
          simple_on_value st ob0 (Some bytes)
            = (st\<lparr>receivedChunkCount := receivedChunkCount st + 1,
                   chunks := chunks st
                     @ [\<lparr>timestamp = real (receivedChunkCount st * FRAME_DURATION_MS * 1000),
                          chunk_duration = FRAME_DURATION_MS * 1000, data = bytes\<rparr>],
                   warnings := warnings st + 1\<rparr>, False))"
proof -
  let ?cs = "\<lparr>timestamp = real (receivedChunkCount st * FRAME_DURATION_MS * 1000),
                chunk_duration = FRAME_DURATION_MS * 1000, data = bytes\<rparr>"
  let ?cw = "\<lparr>timestamp = clock ob * 1000000,
                chunk_duration = frameDurationMs * 1000, data = bytes\<rparr>"
  let ?s1 = "st\<lparr>receivedChunkCount := receivedChunkCount st + 1, chunks := chunks st @ [?cs],
                warnings := warnings st + 1\<rparr>"
  let ?w1 = "st\<lparr>chunks := chunks st @ [?cw], warnings := warnings st + 1\<rparr>"
  have sv: "simple_on_value st ob (Some bytes) = (?s1, False)"
    using assms(1,2,3) by (simp add: simple_on_value_accept Let_def)
  have wv: "web_on_value st ob (Some bytes) = (?w1, False)"
    using assms by (simp add: web_on_value_accept Let_def)
  have sl: "simple_read_loop st ((ob, Resolved (Some bytes) False) # rs) = simple_read_loop ?s1 rs"
    by (simp add: sv)
  have wl: "web_read_loop st ((ob, Resolved (Some bytes) False) # rs) = web_read_loop ?w1 rs"
    by (simp add: wv)
  have sd: "decoded (fst (simple_on_value st ob (Some bytes))) = decoded st"
    by (simp add: sv)
  have wd: "decoded (fst (web_on_value st ob (Some bytes))) = decoded st"
    by (simp add: wv)
  have sp: "map data (decoded (fst (simple_read_loop ?s1 rs)))
              = map data (decoded (fst (simple_read_loop st rs)))
          \<and> snd (simple_read_loop ?s1 rs) = snd (simple_read_loop st rs)"
    by (rule simple_loop_payloads) simp
  have wp: "map data (decoded (fst (web_read_loop ?w1 rs)))
              = map data (decoded (fst (web_read_loop st rs)))
          \<and> snd (web_read_loop ?w1 rs) = snd (web_read_loop st rs)"
    by (rule web_loop_payloads) simp_all
  have nxt: "bytes' \<noteq> [] \<and> decoderState ob' = Some Configured \<and> \<not> decodeThrows ob' \<longrightarrow>
          map data (decoded (fst (simple_read_loop st
            [(ob, Resolved (Some bytes) False), (ob', Resolved (Some bytes') False)])))
            = map data (decoded st) @ [bytes']
        \<and> map data (decoded (fst (web_read_loop st
            [(ob, Resolved (Some bytes) False), (ob', Resolved (Some bytes') False)])))
            = map data (decoded st) @ [bytes']"
    using assms(4)
    by (simp add: sv wv simple_on_value_accept web_on_value_accept Let_def)
  have null: "decoderState ob0 = None \<longrightarrow> simple_on_value st ob0 (Some bytes) = (?s1, False)"
    using assms(1) by (simp add: simple_on_value_accept Let_def)
  from sl wl sd wd sp wp nxt null show ?thesis
    by (simp only: simp_thms)
qed

theorem unconfigured_decoder_drops_frame_witness:
  "simple_read_loop (fresh\<lparr>audioContext := Some Running\<rparr>)
     [(\<lparr>decoderState = Some Unconfigured, clock = 0, decodeThrows = False\<rparr>, Resolved (Some [1]) False),
      (\<lparr>decoderState = Some Configured, clock = 0, decodeThrows = False\<rparr>, Resolved (Some [2]) False)]
     = (fresh\<lparr>audioContext := Some Running, receivedChunkCount := 2,
          chunks := [\<lparr>timestamp = 0, chunk_duration = 5000, data = [1]\<rparr>,
                     \<lparr>timestamp = 5000, chunk_duration = 5000, data = [2]\<rparr>],
          decoded := [\<lparr>timestamp = 5000, chunk_duration = 5000, data = [2]\<rparr>],
          warnings := 1\<rparr>, Reading)
   \<and> web_read_loop (fresh\<lparr>audioContext := Some Running\<rparr>)
     [(\<lparr>decoderState = Some Unconfigured, clock = 0, decodeThrows = False\<rparr>, Resolved (Some [1]) False),
      (\<lparr>decoderState = Some Configured, clock = 0, decodeThrows = False\<rparr>, Resolved (Some [2]) False)]
     = (fresh\<lparr>audioContext := Some Running,
          chunks := [\<lparr>timestamp = 0, chunk_duration = 5000, data = [1]\<rparr>,
                     \<lparr>timestamp = 0, chunk_duration = 5000, data = [2]\<rparr>],
          decoded := [\<lparr>timestamp = 0, chunk_duration = 5000, data = [2]\<rparr>],
          warnings := 1\<rparr>, Reading)"
  using unconfigured_decoder_drops_frame [where bytes = "[1]" and s = Unconfigured
      and ob = "\<lparr>decoderState = Some Unconfigured, clock = 0, decodeThrows = False\<rparr>"
      and st = "fresh\<lparr>audioContext := Some Running\<rparr>" and ctx = Running
      and rs = "[(\<lparr>decoderState = Some Configured, clock = 0, decodeThrows = False\<rparr>, Resolved (Some [2]) False)]"
      and bytes' = "[2]"
      and ob' = "\<lparr>decoderState = Some Configured, clock = 0, decodeThrows = False\<rparr>"
      and ob0 = "\<lparr>decoderState = None, clock = 0, decodeThrows = False\<rparr>"]
  by (simp add: fresh_def simple_on_value_def web_on_value_def FRAME_DURATION_MS_def
      frameDurationMs_def Let_def)

section \<open>Properties in binary64 arithmetic\<close>

subsection \<open>Rounding\<close>

lemma pow2_pos: "0 < pow2 e"
  by (simp add: pow2_def)

lemma pow2_Suc: "pow2 (e + 1) = 2 * pow2 e"
proof (cases "0 \<le> e")
  case True
  then show ?thesis by (simp add: pow2_def nat_add_distrib)
next
  case False
  then have "nat (- e) = Suc (nat (- (e + 1)))" by simp
  with False show ?thesis by (cases "e + 1 = 0") (simp_all add: pow2_def)
qed

lemma pow2_pred: "pow2 (e - 1) = pow2 e / 2"
  using pow2_Suc [of "e - 1"] by simp

lemma pow2_nat: "pow2 (int n) = 2 ^ n"
  by (simp add: pow2_def)

lemma exponent_bounds:
  assumes "x \<noteq> 0"
  shows "pow2 (exponent x) \<le> \<bar>x\<bar>" and "\<bar>x\<bar> < 2 * pow2 (exponent x)"
proof -
  let ?a = "\<bar>x\<bar>"
  have pos: "0 < ?a" using assms by simp
  have "pow2 (exponent x) \<le> ?a \<and> ?a < 2 * pow2 (exponent x)"
  proof (cases "1 \<le> ?a")
    case True
    let ?n = "\<lfloor>?a\<rfloor>"
    from True have n: "0 < ?n" by simp
    from bitlen_bounds [OF n]
    have lo: "2 ^ nat (bitlen ?n - 1) \<le> ?n" and hi: "?n < 2 ^ nat (bitlen ?n)" by simp_all
    from n have b: "1 \<le> bitlen ?n" by (simp add: bitlen_alt_def)
    have e: "exponent x = bitlen ?n - 1" using True by (simp add: exponent_def)
    have p: "pow2 (exponent x) = 2 ^ nat (bitlen ?n - 1)" using b by (simp add: e pow2_def)
    have p': "2 * pow2 (exponent x) = 2 ^ nat (bitlen ?n)"
      using b pow2_Suc [of "bitlen ?n - 1"] by (simp add: e pow2_def)
    have "real_of_int (2 ^ nat (bitlen ?n - 1)) \<le> real_of_int ?n"
      using lo by (simp only: of_int_le_iff)
    also have "\<dots> \<le> ?a" by simp
    finally have 1: "pow2 (exponent x) \<le> ?a" by (simp add: p)
    from hi have "?n + 1 \<le> 2 ^ nat (bitlen ?n)" by simp
    then have "real_of_int (?n + 1) \<le> real_of_int (2 ^ nat (bitlen ?n))"
      by (simp only: of_int_le_iff)
    then have "real_of_int ?n + 1 \<le> 2 ^ nat (bitlen ?n)" by simp
    moreover have "?a < real_of_int ?n + 1" by linarith
    ultimately have "?a < 2 ^ nat (bitlen ?n)" by linarith
    then have 2: "?a < 2 * pow2 (exponent x)" by (simp only: p')
    from 1 2 show ?thesis ..
  next
    case False
    let ?y = "1 / ?a"
    let ?n = "\<lceil>?y\<rceil> - 1"
    from False pos have y: "1 < ?y" by simp
    then have n: "0 < ?n" by linarith
    from bitlen_bounds [OF n]
    have lo: "2 ^ nat (bitlen ?n - 1) \<le> ?n" and hi: "?n < 2 ^ nat (bitlen ?n)" by simp_all
    from n have b: "1 \<le> bitlen ?n" by (simp add: bitlen_alt_def)
    have e: "exponent x = - bitlen ?n" using False by (simp add: exponent_def)
    have p: "pow2 (exponent x) = 1 / 2 ^ nat (bitlen ?n)" using b by (simp add: e pow2_def)
    have nb: "nat (bitlen ?n) = Suc (nat (bitlen ?n - 1))" using b by simp
    have p': "2 * pow2 (exponent x) = 1 / 2 ^ nat (bitlen ?n - 1)"
      unfolding p by (subst nb) simp
    from hi have "?n + 1 \<le> 2 ^ nat (bitlen ?n)" by simp
    then have "real_of_int (?n + 1) \<le> real_of_int (2 ^ nat (bitlen ?n))"
      by (simp only: of_int_le_iff)
    then have "real_of_int ?n + 1 \<le> 2 ^ nat (bitlen ?n)" by simp
    moreover have "?y \<le> real_of_int ?n + 1" by linarith
    ultimately have "?y \<le> 2 ^ nat (bitlen ?n)" by linarith
    with pos have 1: "pow2 (exponent x) \<le> ?a"
      by (simp add: p field_simps)
    have "real_of_int (2 ^ nat (bitlen ?n - 1)) \<le> real_of_int ?n"
      using lo by (simp only: of_int_le_iff)
    then have "2 ^ nat (bitlen ?n - 1) \<le> real_of_int ?n" by simp
    moreover have "real_of_int ?n < ?y" by linarith
    ultimately have "2 ^ nat (bitlen ?n - 1) < ?y" by linarith
    with pos have "?a < 1 / 2 ^ nat (bitlen ?n - 1)"
      by (simp add: field_simps)
    then have 2: "?a < 2 * pow2 (exponent x)" by (simp only: p')
    from 1 2 show ?thesis ..
  qed
  then show "pow2 (exponent x) \<le> \<bar>x\<bar>" and "\<bar>x\<bar> < 2 * pow2 (exponent x)" by simp_all
qed

lemma round_half_even_error: "\<bar>real_of_int (round_half_even x) - x\<bar> \<le> 1 / 2"
  unfolding round_half_even_def Let_def by (auto; linarith)

lemma round_half_even_nonneg: "0 \<le> x \<Longrightarrow> 0 \<le> round_half_even x"
  unfolding round_half_even_def Let_def by (auto; linarith)

lemma to_double_error: "\<bar>to_double x - x\<bar> \<le> \<bar>x\<bar> / 2 ^ 53"
proof (cases "x = 0")
  case True
  then show ?thesis by (simp add: to_double_def)
next
  case False
  let ?u = "pow2 (exponent x - 52)"
  have u: "0 < ?u" by (rule pow2_pos)
  have "to_double x - x = (real_of_int (round_half_even (x / ?u)) - x / ?u) * ?u"
    using False u by (simp add: to_double_def Let_def field_simps)
  then have "\<bar>to_double x - x\<bar> = \<bar>real_of_int (round_half_even (x / ?u)) - x / ?u\<bar> * ?u"
    using u by (simp add: abs_mult)
  also have "\<dots> \<le> 1 / 2 * ?u"
    using round_half_even_error [of "x / ?u"] u by (intro mult_right_mono) simp_all
  also have "?u = pow2 (exponent x) / 2 ^ 52"
  proof -
    have "pow2 (e - int n) = pow2 e / 2 ^ n" for e n
    proof (induction n)
      case 0
      show ?case by simp
    next
      case (Suc n)
      have "e - int (Suc n) = e - int n - 1" by simp
      then show ?case by (simp only: pow2_pred Suc) simp
    qed
    from this [of "exponent x" 52] show ?thesis by simp
  qed
  also have "1 / 2 * (pow2 (exponent x) / 2 ^ 52) = pow2 (exponent x) / 2 ^ 53" by simp
  also have "\<dots> \<le> \<bar>x\<bar> / 2 ^ 53"
    using exponent_bounds(1) [OF False] by (simp add: divide_right_mono)
  finally show ?thesis .
qed

lemma to_double_nonneg: "0 \<le> x \<Longrightarrow> 0 \<le> to_double x"
  using pow2_pos [of "exponent x - 52"] round_half_even_nonneg [of "x / pow2 (exponent x - 52)"]
  by (simp add: to_double_def Let_def)

subsection \<open>One call of the output callback\<close>

lemmas double_eval = to_double_def double_add_def exponent_def pow2_def round_half_even_def
  Let_def compute_bitlen

lemma simple_f64_started:
  "started (simple_handleDecodedChunk_f64 st ad now) =
     (if audioContext st = None \<or> audioContext st = Some Closed then started st
      else started st @ [(simple_scheduleTime_f64 (nextPlayTime st) now, duration ad)])"
  by (simp add: simple_handleDecodedChunk_f64_def Let_def)

lemma simple_f64_cursor:
  "nextPlayTime (simple_handleDecodedChunk_f64 st ad now) =
     (if audioContext st = None \<or> audioContext st = Some Closed then nextPlayTime st
      else double_add (simple_scheduleTime_f64 (nextPlayTime st) now) (duration ad))"
  by (simp add: simple_handleDecodedChunk_f64_def Let_def)

lemma simple_f64_context:
  "audioContext (simple_handleDecodedChunk_f64 st ad now) = audioContext st"
  by (simp add: simple_handleDecodedChunk_f64_def Let_def)

lemma web_f64_started:
  "started (web_handleDecodedChunk_f64 st ad now) =
     (if audioContext st = None then started st
      else started st @ [(web_startAt (nextPlayTime st) now, duration ad)])"
  by (simp add: web_handleDecodedChunk_f64_def Let_def split: option.splits)

lemma web_f64_cursor:
  "nextPlayTime (web_handleDecodedChunk_f64 st ad now) =
     (if audioContext st = None then nextPlayTime st
      else double_add (web_startAt (nextPlayTime st) now) (duration ad))"
  by (simp add: web_handleDecodedChunk_f64_def Let_def split: option.splits)

lemma web_f64_context:
  "audioContext (web_handleDecodedChunk_f64 st ad now) = audioContext st"
  by (simp add: web_handleDecodedChunk_f64_def Let_def split: option.splits)

lemma double_0_005: "to_double 0.005 = 5764607523034235 / 2 ^ 60"
  by (simp add: double_eval)

lemma double_add_error: "\<bar>double_add x y - (x + y)\<bar> \<le> \<bar>x + y\<bar> / 2 ^ 53"
  unfolding double_add_def by (rule to_double_error)

lemma margin_strictly_later:
  assumes "0 \<le> now" and "now < 2 ^ 44"
  shows "now < double_add now (to_double 0.005)"
proof -
  let ?c = "to_double 0.005"
  have c: "?c = 5764607523034235 / 2 ^ 60" by (rule double_0_005)
  have "\<bar>double_add now ?c - (now + ?c)\<bar> \<le> \<bar>now + ?c\<bar> / 2 ^ 53"
    by (rule double_add_error)
  moreover have "0 \<le> now + ?c" using assms(1) unfolding c by simp
  ultimately have "now + ?c - (now + ?c) / 2 ^ 53 \<le> double_add now ?c" by linarith
  moreover have "now < now + ?c - (now + ?c) / 2 ^ 53"
    using assms unfolding c by (simp add: field_simps)
  ultimately show ?thesis by linarith
qed

text \<open>
  Claim C10, as the code has it. With an open context the two clients do the same whenever
  the cursor is not before the device clock: both schedule at the cursor and reach the same
  state. On an underrun the simple-js client schedules at the binary64 sum of \<open>now\<close> and
  0.005, the root client at \<open>now\<close>. The difference of the two times is 0.005 only up to the
  rounding of that sum: it is within \<open>\<bar>now + 0.005\<bar> / 2 ^ 53\<close> of the binary64 value of
  0.005, and for a clock reading from 0 up to \<open>2 ^ 44\<close> seconds the simple-js time is
  strictly the later one.
\<close>

theorem clients_differ_on_underrun_binary64:
  assumes "audioContext st = Some c" and "c \<noteq> Closed"
  shows "(\<not> nextPlayTime st < now \<longrightarrow>
            simple_handleDecodedChunk_f64 st ad now = web_handleDecodedChunk_f64 st ad now
          \<and> started (simple_handleDecodedChunk_f64 st ad now)
              = started st @ [(nextPlayTime st, duration ad)])
       \<and> (nextPlayTime st < now \<longrightarrow>
            started (simple_handleDecodedChunk_f64 st ad now)
              = started st @ [(double_add now (to_double 0.005), duration ad)]
          \<and> started (web_handleDecodedChunk_f64 st ad now) = started st @ [(now, duration ad)]
          \<and> \<bar>(simple_scheduleTime_f64 (nextPlayTime st) now - web_startAt (nextPlayTime st) now)
               - to_double 0.005\<bar> \<le> \<bar>now + to_double 0.005\<bar> / 2 ^ 53
          \<and> (0 \<le> now \<and> now < 2 ^ 44 \<longrightarrow>
               web_startAt (nextPlayTime st) now < simple_scheduleTime_f64 (nextPlayTime st) now))"
proof -
  have same: "\<not> nextPlayTime st < now \<longrightarrow>
            simple_handleDecodedChunk_f64 st ad now = web_handleDecodedChunk_f64 st ad now
          \<and> started (simple_handleDecodedChunk_f64 st ad now)
              = started st @ [(nextPlayTime st, duration ad)]"
    using assms
    by (simp add: simple_handleDecodedChunk_f64_def web_handleDecodedChunk_f64_def
        simple_scheduleTime_f64_def web_startAt_def max_def Let_def)
  have differ: "nextPlayTime st < now \<longrightarrow>
            started (simple_handleDecodedChunk_f64 st ad now)
              = started st @ [(double_add now (to_double 0.005), duration ad)]
          \<and> started (web_handleDecodedChunk_f64 st ad now) = started st @ [(now, duration ad)]"
    using assms
    by (simp add: simple_f64_started web_f64_started simple_scheduleTime_f64_def web_startAt_def)
  have err: "nextPlayTime st < now \<longrightarrow>
      \<bar>(simple_scheduleTime_f64 (nextPlayTime st) now - web_startAt (nextPlayTime st) now)
               - to_double 0.005\<bar> \<le> \<bar>now + to_double 0.005\<bar> / 2 ^ 53"
    using double_add_error [of now "to_double 0.005"]
    by (simp add: simple_scheduleTime_f64_def web_startAt_def algebra_simps)
  have later: "nextPlayTime st < now \<longrightarrow> (0 \<le> now \<and> now < 2 ^ 44 \<longrightarrow>
               web_startAt (nextPlayTime st) now < simple_scheduleTime_f64 (nextPlayTime st) now)"
    using margin_strictly_later [of now]
    by (simp add: simple_scheduleTime_f64_def web_startAt_def)
  from same differ err later show ?thesis by blast
qed

theorem clients_differ_on_underrun_binary64_witness:
  "simple_handleDecodedChunk_f64 (fresh\<lparr>audioContext := Some Running, nextPlayTime := 4\<rparr>)
       \<lparr>duration = to_double 0.005\<rparr> 3
     = web_handleDecodedChunk_f64 (fresh\<lparr>audioContext := Some Running, nextPlayTime := 4\<rparr>)
         \<lparr>duration = to_double 0.005\<rparr> 3
   \<and> started (simple_handleDecodedChunk_f64 (fresh\<lparr>audioContext := Some Running, nextPlayTime := 2\<rparr>)
        \<lparr>duration = to_double 0.005\<rparr> 3)
       = [(3383329220062085 / 2 ^ 50, 5764607523034235 / 2 ^ 60)]
   \<and> started (web_handleDecodedChunk_f64 (fresh\<lparr>audioContext := Some Running, nextPlayTime := 2\<rparr>)
        \<lparr>duration = to_double 0.005\<rparr> 3)
       = [(3, 5764607523034235 / 2 ^ 60)]
   \<and> web_startAt 2 3 < simple_scheduleTime_f64 2 3"
  using clients_differ_on_underrun_binary64
      [where st = "fresh\<lparr>audioContext := Some Running, nextPlayTime := 4\<rparr>" and c = Running
        and now = 3 and ad = "\<lparr>duration = to_double 0.005\<rparr>"]
    clients_differ_on_underrun_binary64
      [where st = "fresh\<lparr>audioContext := Some Running, nextPlayTime := 2\<rparr>" and c = Running
        and now = 3 and ad = "\<lparr>duration = to_double 0.005\<rparr>"]
  by (simp add: fresh_def simple_scheduleTime_f64_def web_startAt_def double_eval)

text \<open>
  Claim C10 as stated fails: with the cursor at 2 and the clock at 3 the simple-js client
  schedules at the binary64 sum of 3 and 0.005 and the root client at 3; the difference is
  \<open>5629499534213 / 2 ^ 50\<close>, about 0.004999999999999893, which is neither 0.005 nor the
  binary64 value of 0.005.
\<close>

theorem exact_margin_counterexample:
  "started (simple_handleDecodedChunk_f64 (fresh\<lparr>audioContext := Some Running, nextPlayTime := 2\<rparr>)
        \<lparr>duration = to_double 0.005\<rparr> 3)
       = [(3383329220062085 / 2 ^ 50, to_double 0.005)]
   \<and> started (web_handleDecodedChunk_f64 (fresh\<lparr>audioContext := Some Running, nextPlayTime := 2\<rparr>)
        \<lparr>duration = to_double 0.005\<rparr> 3)
       = [(3, to_double 0.005)]
   \<and> 3383329220062085 / 2 ^ 50 - 3 = (5629499534213 / 2 ^ 50 :: real)
   \<and> (5629499534213 / 2 ^ 50 :: real) \<noteq> 0.005
   \<and> 5629499534213 / 2 ^ 50 \<noteq> to_double 0.005"
  by (simp add: fresh_def simple_handleDecodedChunk_f64_def web_handleDecodedChunk_f64_def
      simple_scheduleTime_f64_def web_startAt_def double_eval)

subsection \<open>Runs without underrun\<close>

lemma simple_f64_gapless_run:
  assumes "audioContext st = Some c" and "c \<noteq> Closed"
    and "\<forall>f \<in> set ds. duration (fst f) = d"
    and "no_underrun simple_handleDecodedChunk_f64 st ds"
  shows "started (deliver simple_handleDecodedChunk_f64 st ds)
           = started st
             @ map (\<lambda>n. (((\<lambda>t. double_add t d) ^^ n) (nextPlayTime st), d)) [0..<length ds]
       \<and> nextPlayTime (deliver simple_handleDecodedChunk_f64 st ds)
           = ((\<lambda>t. double_add t d) ^^ length ds) (nextPlayTime st)"
  using assms
proof (induction ds arbitrary: st)
  case Nil
  then show ?case by simp
next
  case (Cons f ds)
  obtain ad now where f: "f = (ad, now)" by (cases f)
  let ?st' = "simple_handleDecodedChunk_f64 st ad now"
  from Cons.prems f have d: "duration ad = d" and nu: "\<not> nextPlayTime st < now"
    and rest: "no_underrun simple_handleDecodedChunk_f64 ?st' ds" by simp_all
  from Cons.prems(1,2) nu d
  have st': "started ?st' = started st @ [(nextPlayTime st, d)]"
    "nextPlayTime ?st' = double_add (nextPlayTime st) d" "audioContext ?st' = Some c"
    by (simp_all add: simple_f64_started simple_f64_cursor simple_f64_context
        simple_scheduleTime_f64_def)
  from Cons.prems(3) have "\<forall>f \<in> set ds. duration (fst f) = d" by simp
  note ih = Cons.IH [OF st'(3) Cons.prems(2) this rest]
  have sw: "((\<lambda>t. double_add t d) ^^ n) (double_add a d)
      = double_add (((\<lambda>t. double_add t d) ^^ n) a) d" for n a
    using funpow_swap1 [of "\<lambda>t. double_add t d" n a] by simp
  from ih show ?case
    by (simp add: f st' map_upt_Suc sw del: upt_Suc)
qed

lemma web_f64_gapless_run:
  assumes "audioContext st = Some c"
    and "\<forall>f \<in> set ds. duration (fst f) = d"
    and "no_underrun web_handleDecodedChunk_f64 st ds"
  shows "started (deliver web_handleDecodedChunk_f64 st ds)
           = started st
             @ map (\<lambda>n. (((\<lambda>t. double_add t d) ^^ n) (nextPlayTime st), d)) [0..<length ds]
       \<and> nextPlayTime (deliver web_handleDecodedChunk_f64 st ds)
           = ((\<lambda>t. double_add t d) ^^ length ds) (nextPlayTime st)"
  using assms
proof (induction ds arbitrary: st)
  case Nil
  then show ?case by simp
next
  case (Cons f ds)
  obtain ad now where f: "f = (ad, now)" by (cases f)
  let ?st' = "web_handleDecodedChunk_f64 st ad now"
  from Cons.prems f have d: "duration ad = d" and nu: "\<not> nextPlayTime st < now"
    and rest: "no_underrun web_handleDecodedChunk_f64 ?st' ds" by simp_all
  from Cons.prems(1) nu d
  have st': "started ?st' = started st @ [(nextPlayTime st, d)]"
    "nextPlayTime ?st' = double_add (nextPlayTime st) d" "audioContext ?st' = Some c"
    by (simp_all add: web_f64_started web_f64_cursor web_f64_context web_startAt_def max_def)
  from Cons.prems(2) have "\<forall>f \<in> set ds. duration (fst f) = d" by simp
  note ih = Cons.IH [OF st'(3) this rest]
  have sw: "((\<lambda>t. double_add t d) ^^ n) (double_add a d)
      = double_add (((\<lambda>t. double_add t d) ^^ n) a) d" for n a
    using funpow_swap1 [of "\<lambda>t. double_add t d" n a] by simp
  from ih show ?case
    by (simp add: f st' map_upt_Suc sw del: upt_Suc)
qed

lemma double_add_nonneg: "0 \<le> x \<Longrightarrow> 0 \<le> y \<Longrightarrow> 0 \<le> double_add x y"
  unfolding double_add_def by (rule to_double_nonneg) simp

lemma accumulated_rounding:
  assumes "0 \<le> s" and "0 \<le> d"
  shows "0 \<le> ((\<lambda>t. double_add t d) ^^ n) s
       \<and> \<bar>((\<lambda>t. double_add t d) ^^ n) s - (s + real n * d)\<bar>
           \<le> ((1 + 1 / 2 ^ 53) ^ n - 1) * (s + real n * d)"
proof (induction n)
  case 0
  show ?case using assms by simp
next
  case (Suc n)
  define u :: real where "u = 1 / 2 ^ 53"
  define a where "a = ((\<lambda>t. double_add t d) ^^ n) s"
  define T where "T = s + real n * d"
  define E where "E = (1 + u) ^ n - 1"
  define b where "b = double_add a d"
  from Suc.IH have a: "0 \<le> a" and err: "\<bar>a - T\<bar> \<le> E * T"
    by (simp_all add: a_def T_def E_def u_def)
  have u: "0 \<le> u" by (simp add: u_def)
  have T: "0 \<le> T" using assms by (simp add: T_def)
  have E: "0 \<le> E" using u by (simp add: E_def one_le_power)
  have nonneg: "0 \<le> b" unfolding b_def using a assms(2) by (rule double_add_nonneg)
  have "\<bar>b - (a + d)\<bar> \<le> \<bar>a + d\<bar> / 2 ^ 53" unfolding b_def by (rule double_add_error)
  also have "\<bar>a + d\<bar> = a + d" using a assms(2) by simp
  finally have step: "\<bar>b - (a + d)\<bar> \<le> u * (a + d)" by (simp add: u_def)
  have "a \<le> T + E * T" using err by linarith
  then have "u * (a + d) \<le> u * (T + E * T + d)"
    using u by (intro mult_left_mono) simp_all
  with step have step': "\<bar>b - (a + d)\<bar> \<le> u * (T + E * T + d)" by linarith
  have "\<bar>b - (T + d)\<bar> \<le> \<bar>b - (a + d)\<bar> + \<bar>a - T\<bar>" by linarith
  also have "\<dots> \<le> u * (T + E * T + d) + E * T" using step' err by linarith
  also have "\<dots> = u * (T + d) + (u * E + E) * T" by (simp add: algebra_simps)
  also have "\<dots> \<le> u * (T + d) + (u * E + E) * (T + d)"
  proof -
    have "0 \<le> u * E + E" using u E by simp
    then have "(u * E + E) * T \<le> (u * E + E) * (T + d)"
      using assms(2) by (intro mult_left_mono) simp_all
    then show ?thesis by linarith
  qed
  also have "\<dots> = ((1 + u) * (1 + E) - 1) * (T + d)" by (simp add: algebra_simps)
  also have "(1 + u) * (1 + E) = (1 + u) ^ Suc n" by (simp add: E_def)
  finally have "\<bar>b - (T + d)\<bar> \<le> ((1 + u) ^ Suc n - 1) * (T + d)" .
  moreover have "T + d = s + real (Suc n) * d" by (simp add: T_def algebra_simps)
  moreover have "((\<lambda>t. double_add t d) ^^ Suc n) s = b" by (simp add: b_def a_def)
  ultimately show ?case using nonneg by (simp add: u_def)
qed

text \<open>
  Claim C2, as the code has it. Frames of one fixed duration \<open>d\<close>, delivered to an open
  context without an underrun at any delivery, are scheduled back to back by either
  client: frame \<open>n\<close> starts at the cursor the frames before it have left, which is \<open>d\<close>
  added \<open>n\<close> times to \<open>start\<close> in binary64 arithmetic, where \<open>start\<close> is the cursor the
  first frame finds. For non-negative \<open>start\<close> and \<open>d\<close> that sum is within
  \<open>((1 + 1 / 2 ^ 53) ^ n - 1) * (start + n * d)\<close> of \<open>start + n * d\<close>; it need not be equal
  to it.
\<close>

theorem gapless_schedule_binary64:
  assumes "audioContext st = Some c" and "c \<noteq> Closed"
    and "\<forall>f \<in> set ds. duration (fst f) = d"
  shows "(no_underrun simple_handleDecodedChunk_f64 st ds \<longrightarrow>
            started (deliver simple_handleDecodedChunk_f64 st ds)
              = started st
                @ map (\<lambda>n. (((\<lambda>t. double_add t d) ^^ n) (nextPlayTime st), d)) [0..<length ds]
          \<and> nextPlayTime (deliver simple_handleDecodedChunk_f64 st ds)
              = ((\<lambda>t. double_add t d) ^^ length ds) (nextPlayTime st))
       \<and> (no_underrun web_handleDecodedChunk_f64 st ds \<longrightarrow>
            started (deliver web_handleDecodedChunk_f64 st ds)
              = started st
                @ map (\<lambda>n. (((\<lambda>t. double_add t d) ^^ n) (nextPlayTime st), d)) [0..<length ds]
          \<and> nextPlayTime (deliver web_handleDecodedChunk_f64 st ds)
              = ((\<lambda>t. double_add t d) ^^ length ds) (nextPlayTime st))
       \<and> (0 \<le> nextPlayTime st \<and> 0 \<le> d \<longrightarrow>
            \<bar>((\<lambda>t. double_add t d) ^^ n) (nextPlayTime st) - (nextPlayTime st + real n * d)\<bar>
              \<le> ((1 + 1 / 2 ^ 53) ^ n - 1) * (nextPlayTime st + real n * d))"
  using simple_f64_gapless_run [OF assms] web_f64_gapless_run [OF assms(1,3)]
    accumulated_rounding [of "nextPlayTime st" d n]
  by blast

lemma five_ms_frames_3:
  "five_ms_frames 3 =
     [(\<lparr>duration = 5764607523034235 / 2 ^ 60\<rparr>, 0),
      (\<lparr>duration = 5764607523034235 / 2 ^ 60\<rparr>, 5764607523034235 / 2 ^ 60),
      (\<lparr>duration = 5764607523034235 / 2 ^ 60\<rparr>, 5764607523034235 / 2 ^ 59)]"
  by (simp add: five_ms_frames_def upt_rec double_eval)

theorem gapless_schedule_binary64_witness:
  "no_underrun simple_handleDecodedChunk_f64 (fresh\<lparr>audioContext := Some Running\<rparr>)
     (five_ms_frames 3)
   \<and> no_underrun web_handleDecodedChunk_f64 (fresh\<lparr>audioContext := Some Running\<rparr>)
     (five_ms_frames 3)
   \<and> map fst (started (deliver simple_handleDecodedChunk_f64
        (fresh\<lparr>audioContext := Some Running\<rparr>) (five_ms_frames 3)))
     = [0, 5764607523034235 / 2 ^ 60, 5764607523034235 / 2 ^ 59]
   \<and> map fst (started (deliver web_handleDecodedChunk_f64
        (fresh\<lparr>audioContext := Some Running\<rparr>) (five_ms_frames 3)))
     = [0, 5764607523034235 / 2 ^ 60, 5764607523034235 / 2 ^ 59]"
proof -
  let ?st = "fresh\<lparr>audioContext := Some Running\<rparr>"
  let ?d = "to_double 0.005"
  have c: "audioContext ?st = Some Running" "Running \<noteq> Closed" by simp_all
  have d: "\<forall>f \<in> set (five_ms_frames 3). duration (fst f) = ?d"
    by (simp add: five_ms_frames_def)
  have s: "no_underrun simple_handleDecodedChunk_f64 ?st (five_ms_frames 3)"
    unfolding five_ms_frames_3
    by (simp add: fresh_def simple_handleDecodedChunk_f64_def simple_scheduleTime_f64_def
        double_eval)
  have w: "no_underrun web_handleDecodedChunk_f64 ?st (five_ms_frames 3)"
    unfolding five_ms_frames_3
    by (simp add: fresh_def web_handleDecodedChunk_f64_def web_startAt_def double_eval)
  have l: "[0..<length (five_ms_frames 3)] = [0, 1, 2]"
    by (simp add: five_ms_frames_def upt_rec)
  have n: "nextPlayTime ?st = 0" by (simp add: fresh_def)
  from gapless_schedule_binary64 [OF c d, of 0] s w show ?thesis
    unfolding l n by (simp add: fresh_def numeral_2_eq_2 double_eval)
qed

text \<open>
  Claim C2 as stated fails on the simple-js client. Seven frames of 5 ms delivered on time
  from cursor 0 meet no underrun, and the seventh starts at \<open>8646911284551353 / 2 ^ 58\<close>,
  about 0.030000000000000002, which is neither six times the duration nor the binary64
  value of 0.03. After ten frames the cursor is \<open>7205759403792793 / 2 ^ 57\<close>, about
  0.049999999999999996, below the clock reading 0.05 of the eleventh delivery: the
  100-frame run does meet an underrun, and frame 10 is rescheduled to about 0.055.
\<close>

theorem exact_multiples_counterexample:
  "no_underrun simple_handleDecodedChunk_f64 (fresh\<lparr>audioContext := Some Running\<rparr>)
     (five_ms_frames 7)
   \<and> map fst (started (deliver simple_handleDecodedChunk_f64
        (fresh\<lparr>audioContext := Some Running\<rparr>) (five_ms_frames 7)))
     = [0, 5764607523034235 / 2 ^ 60, 5764607523034235 / 2 ^ 59, 1080863910568919 / 2 ^ 56,
        5764607523034235 / 2 ^ 58, 3602879701896397 / 2 ^ 57, 8646911284551353 / 2 ^ 58]
   \<and> (8646911284551353 / 2 ^ 58 :: real) \<noteq> 0 + 6 * to_double 0.005
   \<and> 8646911284551353 / 2 ^ 58 \<noteq> to_double (6 * 0.005)
   \<and> nextPlayTime (deliver simple_handleDecodedChunk_f64
        (fresh\<lparr>audioContext := Some Running\<rparr>) (five_ms_frames 10))
     = 7205759403792793 / 2 ^ 57
   \<and> (7205759403792793 / 2 ^ 57 :: real) < to_double (10 * 0.005)
   \<and> \<not> no_underrun simple_handleDecodedChunk_f64 (fresh\<lparr>audioContext := Some Running\<rparr>)
         (five_ms_frames 11)
   \<and> last (started (deliver simple_handleDecodedChunk_f64
        (fresh\<lparr>audioContext := Some Running\<rparr>) (five_ms_frames 11)))
     = (7926335344172073 / 2 ^ 57, 5764607523034235 / 2 ^ 60)
   \<and> (7926335344172073 / 2 ^ 57 :: real) \<noteq> 0 + 10 * to_double 0.005"
  by (simp add: five_ms_frames_def upt_rec fresh_def simple_handleDecodedChunk_f64_def
      simple_scheduleTime_f64_def double_eval)

subsection \<open>Sessions with one decode failure\<close>

lemma simple_iteration_accepted:
  assumes "bytes \<noteq> []" and "decoderState ob = Some Configured" and "\<not> decodeThrows ob"
  shows "simple_read_loop st [(ob, Resolved (Some bytes) False)] =
     (st\<lparr>receivedChunkCount := receivedChunkCount st + 1,
         chunks := chunks st @ [\<lparr>timestamp = real (receivedChunkCount st * FRAME_DURATION_MS * 1000),
              chunk_duration = FRAME_DURATION_MS * 1000, data = bytes\<rparr>],
         decoded := decoded st @ [\<lparr>timestamp = real (receivedChunkCount st * FRAME_DURATION_MS * 1000),
              chunk_duration = FRAME_DURATION_MS * 1000, data = bytes\<rparr>]\<rparr>, Reading)"
  using assms by (simp add: simple_on_value_def Let_def)

lemma web_iteration_accepted:
  assumes "bytes \<noteq> []" and "decoderState ob = Some Configured" and "\<not> decodeThrows ob"
    and "audioContext st = Some c"
  shows "web_read_loop st [(ob, Resolved (Some bytes) False)] =
     (st\<lparr>chunks := chunks st @ [\<lparr>timestamp = clock ob * 1000000,
              chunk_duration = frameDurationMs * 1000, data = bytes\<rparr>],
         decoded := decoded st @ [\<lparr>timestamp = clock ob * 1000000,
              chunk_duration = frameDurationMs * 1000, data = bytes\<rparr>]\<rparr>, Reading)"
  using assms by (simp add: web_on_value_def Let_def)

lemma web_iteration_throws:
  assumes "bytes \<noteq> []" and "decoderState ob = Some Configured" and "decodeThrows ob"
    and "audioContext st = Some c"
  shows "web_read_loop st [(ob, Resolved (Some bytes) False)] =
     (st\<lparr>chunks := chunks st @ [\<lparr>timestamp = clock ob * 1000000,
              chunk_duration = frameDurationMs * 1000, data = bytes\<rparr>],
         errors := errors st + 1\<rparr>, Reading)"
  using assms by (simp add: web_on_value_def Let_def)

lemma simple_iteration_throws:
  assumes "bytes \<noteq> []" and "decoderState ob = Some Configured" and "decodeThrows ob"
  shows "snd (simple_read_loop st [(ob, Resolved (Some bytes) False)]) = Aborted"
    and "started (fst (simple_read_loop st [(ob, Resolved (Some bytes) False)])) = started st"
  using assms by (simp_all add: simple_on_value_def Let_def)

lemma delivered_cases:
  assumes "delivered s"
  obtains ob bytes ad now where "s = (ob, Resolved (Some bytes) False, Output ad now)"
    and "bytes \<noteq> []" and "decoderState ob = Some Configured" and "\<not> decodeThrows ob"
  using assms by (cases s rule: delivered.cases) auto

lemma decode_error_cases:
  assumes "decode_error s"
  obtains ob bytes where "s = (ob, Resolved (Some bytes) False, DecodeError)"
    and "bytes \<noteq> []" and "decoderState ob = Some Configured" and "\<not> decodeThrows ob"
  using assms by (cases s rule: decode_error.cases) auto

lemma decode_throws_cases:
  assumes "decode_throws s"
  obtains ob bytes cb where "s = (ob, Resolved (Some bytes) False, cb)"
    and "bytes \<noteq> []" and "decoderState ob = Some Configured" and "decodeThrows ob"
  using assms by (cases s rule: decode_throws.cases) auto

lemma frames_append: "frames (xs @ ys) = frames xs @ frames ys"
  by (induction xs rule: frames.induct) simp_all

lemma length_frames_delivered:
  "\<forall>s \<in> set zs. delivered s \<Longrightarrow> length (frames zs) = length zs"
proof (induction zs)
  case Nil
  show ?case by simp
next
  case (Cons s zs)
  from Cons.prems have "delivered s" by simp
  then obtain ob bytes ad now where "s = (ob, Resolved (Some bytes) False, Output ad now)"
    by (rule delivered_cases)
  with Cons show ?case by simp
qed

lemma simple_f64_same_schedule:
  assumes "audioContext s = audioContext t" and "nextPlayTime s = nextPlayTime t"
    and "started s = started t"
  shows "audioContext (simple_handleDecodedChunk_f64 s ad now)
           = audioContext (simple_handleDecodedChunk_f64 t ad now)"
    and "nextPlayTime (simple_handleDecodedChunk_f64 s ad now)
           = nextPlayTime (simple_handleDecodedChunk_f64 t ad now)"
    and "started (simple_handleDecodedChunk_f64 s ad now)
           = started (simple_handleDecodedChunk_f64 t ad now)"
  using assms by (simp_all add: simple_f64_context simple_f64_cursor simple_f64_started)

lemma web_f64_same_schedule:
  assumes "audioContext s = audioContext t" and "nextPlayTime s = nextPlayTime t"
    and "started s = started t"
  shows "audioContext (web_handleDecodedChunk_f64 s ad now)
           = audioContext (web_handleDecodedChunk_f64 t ad now)"
    and "nextPlayTime (web_handleDecodedChunk_f64 s ad now)
           = nextPlayTime (web_handleDecodedChunk_f64 t ad now)"
    and "started (web_handleDecodedChunk_f64 s ad now)
           = started (web_handleDecodedChunk_f64 t ad now)"
  using assms by (simp_all add: web_f64_context web_f64_cursor web_f64_started)

lemma simple_session_all_delivered:
  assumes "\<forall>s \<in> set zs. delivered s"
    and "audioContext st = audioContext t" and "nextPlayTime st = nextPlayTime t"
    and "started st = started t"
  shows "snd (simple_session st zs) = Reading
       \<and> audioContext (fst (simple_session st zs))
           = audioContext (deliver simple_handleDecodedChunk_f64 t (frames zs))
       \<and> nextPlayTime (fst (simple_session st zs))
           = nextPlayTime (deliver simple_handleDecodedChunk_f64 t (frames zs))
       \<and> started (fst (simple_session st zs))
           = started (deliver simple_handleDecodedChunk_f64 t (frames zs))"
  using assms
proof (induction zs arbitrary: st t)
  case Nil
  then show ?case by simp
next
  case (Cons s zs)
  from Cons.prems(1) have "delivered s" by simp
  then obtain ob bytes ad now where s: "s = (ob, Resolved (Some bytes) False, Output ad now)"
    and ok: "bytes \<noteq> []" "decoderState ob = Some Configured" "\<not> decodeThrows ob"
    by (rule delivered_cases)
  let ?c = "\<lparr>timestamp = real (receivedChunkCount st * FRAME_DURATION_MS * 1000),
              chunk_duration = FRAME_DURATION_MS * 1000, data = bytes\<rparr>"
  let ?st1 = "st\<lparr>receivedChunkCount := receivedChunkCount st + 1,
         chunks := chunks st @ [?c], decoded := decoded st @ [?c]\<rparr>"
  let ?st2 = "simple_handleDecodedChunk_f64 ?st1 ad now"
  have it: "simple_read_loop st [(ob, Resolved (Some bytes) False)] = (?st1, Reading)"
    by (rule simple_iteration_accepted [OF ok])
  have step: "simple_session st (s # zs) = simple_session ?st2 zs"
    unfolding s by (simp only: simple_session.simps it) simp
  have rel: "audioContext ?st1 = audioContext t" "nextPlayTime ?st1 = nextPlayTime t"
    "started ?st1 = started t"
    using Cons.prems(2,3,4) by simp_all
  from Cons.prems(1) have rest: "\<forall>s \<in> set zs. delivered s" by simp
  from Cons.IH [OF rest simple_f64_same_schedule [OF rel, of ad now]]
  show ?case unfolding step by (simp add: s)
qed

lemma web_session_all_delivered:
  assumes "\<forall>s \<in> set zs. delivered s"
    and "audioContext st = Some c"
    and "audioContext st = audioContext t" and "nextPlayTime st = nextPlayTime t"
    and "started st = started t"
  shows "snd (web_session st zs) = Reading
       \<and> audioContext (fst (web_session st zs))
           = audioContext (deliver web_handleDecodedChunk_f64 t (frames zs))
       \<and> nextPlayTime (fst (web_session st zs))
           = nextPlayTime (deliver web_handleDecodedChunk_f64 t (frames zs))
       \<and> started (fst (web_session st zs))
           = started (deliver web_handleDecodedChunk_f64 t (frames zs))"
  using assms
proof (induction zs arbitrary: st t)
  case Nil
  then show ?case by simp
next
  case (Cons s zs)
  from Cons.prems(1) have "delivered s" by simp
  then obtain ob bytes ad now where s: "s = (ob, Resolved (Some bytes) False, Output ad now)"
    and ok: "bytes \<noteq> []" "decoderState ob = Some Configured" "\<not> decodeThrows ob"
    by (rule delivered_cases)
  let ?c = "\<lparr>timestamp = clock ob * 1000000,
              chunk_duration = frameDurationMs * 1000, data = bytes\<rparr>"
  let ?st1 = "st\<lparr>chunks := chunks st @ [?c], decoded := decoded st @ [?c]\<rparr>"
  let ?st2 = "web_handleDecodedChunk_f64 ?st1 ad now"
  have it: "web_read_loop st [(ob, Resolved (Some bytes) False)] = (?st1, Reading)"
    by (rule web_iteration_accepted [OF ok Cons.prems(2)])
  have step: "web_session st (s # zs) = web_session ?st2 zs"
    unfolding s by (simp only: web_session.simps it) simp
  have rel: "audioContext ?st1 = audioContext t" "nextPlayTime ?st1 = nextPlayTime t"
    "started ?st1 = started t"
    using Cons.prems(3,4,5) by simp_all
  have ctx: "audioContext ?st2 = Some c"
    using Cons.prems(2) by (simp add: web_f64_context)
  from Cons.prems(1) have rest: "\<forall>s \<in> set zs. delivered s" by simp
  from Cons.IH [OF rest ctx web_f64_same_schedule [OF rel, of ad now]]
  show ?case unfolding step by (simp add: s)
qed

lemma simple_session_append:
  "simple_session st (xs @ ys) =
     (if snd (simple_session st xs) = Reading
      then simple_session (fst (simple_session st xs)) ys
      else simple_session st xs)"
proof (induction st xs rule: simple_session.induct)
  case (1 st)
  show ?case by simp
next
  case (2 st ob r cb rs)
  obtain st' status where it: "simple_read_loop st [(ob, r)] = (st', status)"
    by (cases "simple_read_loop st [(ob, r)]")
  show ?case
  proof (cases "status = Reading")
    case True
    with "2.IH" [of "(st', status)" st' status] it show ?thesis by simp
  next
    case False
    with it show ?thesis by simp
  qed
qed

lemma web_session_append:
  "web_session st (xs @ ys) =
     (if snd (web_session st xs) = Reading
      then web_session (fst (web_session st xs)) ys
      else web_session st xs)"
proof (induction st xs rule: web_session.induct)
  case (1 st)
  show ?case by simp
next
  case (2 st ob r cb rs)
  obtain st' status where it: "web_read_loop st [(ob, r)] = (st', status)"
    by (cases "web_read_loop st [(ob, r)]")
  show ?case
  proof (cases "status = Reading")
    case True
    with "2.IH" [of "(st', status)" st' status] it show ?thesis by simp
  next
    case False
    with it show ?thesis by simp
  qed
qed

lemma simple_after_decode_error:
  assumes "decode_error bad"
  obtains s2 where "simple_session st (bad # ys) = simple_session s2 ys"
    and "audioContext s2 = audioContext st" and "nextPlayTime s2 = nextPlayTime st"
    and "started s2 = started st"
proof -
  from assms obtain ob bytes where bad: "bad = (ob, Resolved (Some bytes) False, DecodeError)"
    and ok: "bytes \<noteq> []" "decoderState ob = Some Configured" "\<not> decodeThrows ob"
    by (rule decode_error_cases)
  let ?c = "\<lparr>timestamp = real (receivedChunkCount st * FRAME_DURATION_MS * 1000),
              chunk_duration = FRAME_DURATION_MS * 1000, data = bytes\<rparr>"
  let ?st1 = "st\<lparr>receivedChunkCount := receivedChunkCount st + 1,
         chunks := chunks st @ [?c], decoded := decoded st @ [?c]\<rparr>"
  have it: "simple_read_loop st [(ob, Resolved (Some bytes) False)] = (?st1, Reading)"
    by (rule simple_iteration_accepted [OF ok])
  have "simple_session st (bad # ys) = simple_session (decoder_error ?st1) ys"
    unfolding bad by (simp only: simple_session.simps it) simp
  moreover have "audioContext (decoder_error ?st1) = audioContext st"
    "nextPlayTime (decoder_error ?st1) = nextPlayTime st"
    "started (decoder_error ?st1) = started st"
    by (simp_all add: decoder_error_def)
  ultimately show ?thesis by (rule that)
qed

lemma web_after_decode_error:
  assumes "decode_error bad" and "audioContext st = Some c"
  obtains s2 where "web_session st (bad # ys) = web_session s2 ys"
    and "audioContext s2 = audioContext st" and "nextPlayTime s2 = nextPlayTime st"
    and "started s2 = started st"
proof -
  from assms(1) obtain ob bytes where bad: "bad = (ob, Resolved (Some bytes) False, DecodeError)"
    and ok: "bytes \<noteq> []" "decoderState ob = Some Configured" "\<not> decodeThrows ob"
    by (rule decode_error_cases)
  let ?c = "\<lparr>timestamp = clock ob * 1000000,
              chunk_duration = frameDurationMs * 1000, data = bytes\<rparr>"
  let ?st1 = "st\<lparr>chunks := chunks st @ [?c], decoded := decoded st @ [?c]\<rparr>"
  have it: "web_read_loop st [(ob, Resolved (Some bytes) False)] = (?st1, Reading)"
    by (rule web_iteration_accepted [OF ok assms(2)])
  have "web_session st (bad # ys) = web_session (decoder_error ?st1) ys"
    unfolding bad by (simp only: web_session.simps it) simp
  moreover have "audioContext (decoder_error ?st1) = audioContext st"
    "nextPlayTime (decoder_error ?st1) = nextPlayTime st"
    "started (decoder_error ?st1) = started st"
    by (simp_all add: decoder_error_def)
  ultimately show ?thesis by (rule that)
qed

lemma web_after_decode_throws:
  assumes "decode_throws bad" and "audioContext st = Some c"
  obtains s2 where "web_session st (bad # ys) = web_session s2 ys"
    and "audioContext s2 = audioContext st" and "nextPlayTime s2 = nextPlayTime st"
    and "started s2 = started st"
proof -
  from assms(1) obtain ob bytes cb where bad: "bad = (ob, Resolved (Some bytes) False, cb)"
    and ok: "bytes \<noteq> []" "decoderState ob = Some Configured" "decodeThrows ob"
    by (rule decode_throws_cases)
  let ?c = "\<lparr>timestamp = clock ob * 1000000,
              chunk_duration = frameDurationMs * 1000, data = bytes\<rparr>"
  let ?st1 = "st\<lparr>chunks := chunks st @ [?c], errors := errors st + 1\<rparr>"
  have it: "web_read_loop st [(ob, Resolved (Some bytes) False)] = (?st1, Reading)"
    by (rule web_iteration_throws [OF ok assms(2)])
  have "web_session st (bad # ys) = web_session ?st1 ys"
    unfolding bad by (simp only: web_session.simps it) simp
  moreover have "audioContext ?st1 = audioContext st" "nextPlayTime ?st1 = nextPlayTime st"
    "started ?st1 = started st"
    by simp_all
  ultimately show ?thesis by (rule that)
qed

lemma simple_f64_deliver_context:
  "audioContext (deliver simple_handleDecodedChunk_f64 st ds) = audioContext st"
  by (induction ds arbitrary: st) (auto simp add: simple_f64_context)

lemma web_f64_deliver_context:
  "audioContext (deliver web_handleDecodedChunk_f64 st ds) = audioContext st"
  by (induction ds arbitrary: st) (auto simp add: web_f64_context)

lemma simple_f64_deliver_length:
  assumes "audioContext st = Some c" and "c \<noteq> Closed"
  shows "length (started (deliver simple_handleDecodedChunk_f64 st ds))
           = length (started st) + length ds"
  using assms
proof (induction ds arbitrary: st)
  case Nil
  then show ?case by simp
next
  case (Cons f ds)
  obtain ad now where f: "f = (ad, now)" by (cases f)
  from Cons.prems have "audioContext (simple_handleDecodedChunk_f64 st ad now) = Some c"
    by (simp add: simple_f64_context)
  from Cons.IH [OF this Cons.prems(2)] Cons.prems show ?case
    by (simp add: f simple_f64_started)
qed

lemma web_f64_deliver_length:
  assumes "audioContext st = Some c"
  shows "length (started (deliver web_handleDecodedChunk_f64 st ds))
           = length (started st) + length ds"
  using assms
proof (induction ds arbitrary: st)
  case Nil
  then show ?case by simp
next
  case (Cons f ds)
  obtain ad now where f: "f = (ad, now)" by (cases f)
  from Cons.prems have "audioContext (web_handleDecodedChunk_f64 st ad now) = Some c"
    by (simp add: web_f64_context)
  from Cons.IH [OF this] Cons.prems show ?case
    by (simp add: f web_f64_started)
qed

lemma simple_session_one_error:
  assumes xs: "\<forall>s \<in> set xs. delivered s" and ys: "\<forall>s \<in> set ys. delivered s"
    and bad: "decode_error bad"
  shows "snd (simple_session st (xs @ bad # ys)) = Reading
       \<and> nextPlayTime (fst (simple_session st (xs @ bad # ys)))
           = nextPlayTime (deliver simple_handleDecodedChunk_f64 st (frames (xs @ ys)))
       \<and> started (fst (simple_session st (xs @ bad # ys)))
           = started (deliver simple_handleDecodedChunk_f64 st (frames (xs @ ys)))"
proof -
  let ?s1 = "fst (simple_session st xs)"
  let ?d1 = "deliver simple_handleDecodedChunk_f64 st (frames xs)"
  from simple_session_all_delivered [OF xs refl refl refl, of st]
  have r1: "snd (simple_session st xs) = Reading" "audioContext ?s1 = audioContext ?d1"
    "nextPlayTime ?s1 = nextPlayTime ?d1" "started ?s1 = started ?d1"
    by simp_all
  from bad obtain s2 where s2: "simple_session ?s1 (bad # ys) = simple_session s2 ys"
    and r2: "audioContext s2 = audioContext ?s1" "nextPlayTime s2 = nextPlayTime ?s1"
      "started s2 = started ?s1"
    by (rule simple_after_decode_error)
  have eq: "simple_session st (xs @ bad # ys) = simple_session s2 ys"
    by (simp only: simple_session_append r1(1) s2 refl if_True)
  from simple_session_all_delivered [OF ys, of s2 ?d1] r1 r2
  show ?thesis unfolding eq by (simp add: frames_append deliver_append)
qed

lemma web_session_one_failure:
  assumes xs: "\<forall>s \<in> set xs. delivered s" and ys: "\<forall>s \<in> set ys. delivered s"
    and bad: "decode_error bad \<or> decode_throws bad" and ctx: "audioContext st = Some c"
  shows "snd (web_session st (xs @ bad # ys)) = Reading
       \<and> nextPlayTime (fst (web_session st (xs @ bad # ys)))
           = nextPlayTime (deliver web_handleDecodedChunk_f64 st (frames (xs @ ys)))
       \<and> started (fst (web_session st (xs @ bad # ys)))
           = started (deliver web_handleDecodedChunk_f64 st (frames (xs @ ys)))"
proof -
  let ?s1 = "fst (web_session st xs)"
  let ?d1 = "deliver web_handleDecodedChunk_f64 st (frames xs)"
  from web_session_all_delivered [OF xs ctx refl refl refl]
  have r1: "snd (web_session st xs) = Reading" "audioContext ?s1 = audioContext ?d1"
    "nextPlayTime ?s1 = nextPlayTime ?d1" "started ?s1 = started ?d1"
    by simp_all
  have c1: "audioContext ?s1 = Some c"
    using r1(2) ctx by (simp add: web_f64_deliver_context)
  obtain s2 where s2: "web_session ?s1 (bad # ys) = web_session s2 ys"
    and r2: "audioContext s2 = audioContext ?s1" "nextPlayTime s2 = nextPlayTime ?s1"
      "started s2 = started ?s1"
    using bad web_after_decode_error [OF _ c1, of bad ys]
      web_after_decode_throws [OF _ c1, of bad ys]
    by blast
  have c2: "audioContext s2 = Some c" using r2(1) c1 by simp
  have eq: "web_session st (xs @ bad # ys) = web_session s2 ys"
    by (simp only: web_session_append r1(1) s2 refl if_True)
  from web_session_all_delivered [OF ys c2, of ?d1] r1 r2
  show ?thesis unfolding eq by (simp add: frames_append deliver_append)
qed

lemma simple_callback_commutes:
  "simple_on_value (on_callback simple_handleDecodedChunk_f64 st cb) ob v
     = (on_callback simple_handleDecodedChunk_f64 (fst (simple_on_value st ob v)) cb,
        snd (simple_on_value st ob v))"
  by (cases cb)
    (auto simp add: simple_on_value_def simple_handleDecodedChunk_f64_def decoder_error_def
      Let_def split: option.splits)

lemma web_callback_commutes:
  "web_on_value (on_callback web_handleDecodedChunk_f64 st cb) ob v
     = (on_callback web_handleDecodedChunk_f64 (fst (web_on_value st ob v)) cb,
        snd (web_on_value st ob v))"
  by (cases cb)
    (auto simp add: web_on_value_def web_handleDecodedChunk_f64_def decoder_error_def
      Let_def split: option.splits)

text \<open>
  Claim C8, as the code has it. Let \<open>n\<close> non-empty reads be taken with an open context and
  a configured decoder, the entries \<open>xs\<close>, then one entry \<open>bad\<close>, then the entries \<open>ys\<close>,
  where every entry but \<open>bad\<close> comes back through the output callback. If the decoder
  reports \<open>bad\<close> through its error callback, the session of either client is still
  reading at the end, has scheduled \<open>n - 1\<close> frames, and its schedule and cursor are those
  of delivering the frames of \<open>xs @ ys\<close> alone; after \<open>bad\<close> the cursor is where the last
  frame of \<open>xs\<close> left it, so the first frame of \<open>ys\<close> is scheduled against that end time.
  The same holds in the root client if instead the \<^verbatim>\<open>decode\<close> call of \<open>bad\<close> throws.
\<close>

theorem one_decode_failure_session:
  assumes "audioContext st = Some c" and "c \<noteq> Closed"
    and "\<forall>s \<in> set xs. delivered s" and "\<forall>s \<in> set ys. delivered s"
  shows "(decode_error bad \<longrightarrow>
            snd (simple_session st (xs @ bad # ys)) = Reading
          \<and> started (fst (simple_session st (xs @ bad # ys)))
              = started (deliver simple_handleDecodedChunk_f64 st (frames (xs @ ys)))
          \<and> nextPlayTime (fst (simple_session st (xs @ bad # ys)))
              = nextPlayTime (deliver simple_handleDecodedChunk_f64 st (frames (xs @ ys)))
          \<and> length (started (fst (simple_session st (xs @ bad # ys))))
              = length (started st) + (length (xs @ bad # ys) - 1)
          \<and> nextPlayTime (fst (simple_session st (xs @ [bad])))
              = nextPlayTime (fst (simple_session st xs)))
       \<and> (decode_error bad \<or> decode_throws bad \<longrightarrow>
            snd (web_session st (xs @ bad # ys)) = Reading
          \<and> started (fst (web_session st (xs @ bad # ys)))
              = started (deliver web_handleDecodedChunk_f64 st (frames (xs @ ys)))
          \<and> nextPlayTime (fst (web_session st (xs @ bad # ys)))
              = nextPlayTime (deliver web_handleDecodedChunk_f64 st (frames (xs @ ys)))
          \<and> length (started (fst (web_session st (xs @ bad # ys))))
              = length (started st) + (length (xs @ bad # ys) - 1)
          \<and> nextPlayTime (fst (web_session st (xs @ [bad])))
              = nextPlayTime (fst (web_session st xs)))"
proof -
  have n: "length (frames (xs @ ys)) = length (xs @ bad # ys) - 1"
    using length_frames_delivered [of "xs @ ys"] assms(3,4) by auto
  have simple: "snd (simple_session st (xs @ bad # ys)) = Reading
          \<and> started (fst (simple_session st (xs @ bad # ys)))
              = started (deliver simple_handleDecodedChunk_f64 st (frames (xs @ ys)))
          \<and> nextPlayTime (fst (simple_session st (xs @ bad # ys)))
              = nextPlayTime (deliver simple_handleDecodedChunk_f64 st (frames (xs @ ys)))
          \<and> length (started (fst (simple_session st (xs @ bad # ys))))
              = length (started st) + (length (xs @ bad # ys) - 1)
          \<and> nextPlayTime (fst (simple_session st (xs @ [bad])))
              = nextPlayTime (fst (simple_session st xs))"
    if bad: "decode_error bad"
  proof -
    note all = simple_session_one_error [OF assms(3,4) bad, of st]
    have len: "length (started (fst (simple_session st (xs @ bad # ys))))
              = length (started st) + (length (xs @ bad # ys) - 1)"
      using all simple_f64_deliver_length [OF assms(1,2), of "frames (xs @ ys)"]
      by (simp only: n)
    have "nextPlayTime (fst (simple_session st (xs @ [bad])))
            = nextPlayTime (deliver simple_handleDecodedChunk_f64 st (frames xs))"
      using simple_session_one_error [OF assms(3) _ bad, of "[]" st] by simp
    also have "\<dots> = nextPlayTime (fst (simple_session st xs))"
      using simple_session_all_delivered [OF assms(3) refl refl refl, of st] by simp
    finally show ?thesis using all len by simp
  qed
  have web: "snd (web_session st (xs @ bad # ys)) = Reading
          \<and> started (fst (web_session st (xs @ bad # ys)))
              = started (deliver web_handleDecodedChunk_f64 st (frames (xs @ ys)))
          \<and> nextPlayTime (fst (web_session st (xs @ bad # ys)))
              = nextPlayTime (deliver web_handleDecodedChunk_f64 st (frames (xs @ ys)))
          \<and> length (started (fst (web_session st (xs @ bad # ys))))
              = length (started st) + (length (xs @ bad # ys) - 1)
          \<and> nextPlayTime (fst (web_session st (xs @ [bad])))
              = nextPlayTime (fst (web_session st xs))"
    if bad: "decode_error bad \<or> decode_throws bad"
  proof -
    note all = web_session_one_failure [OF assms(3,4) bad assms(1)]
    have len: "length (started (fst (web_session st (xs @ bad # ys))))
              = length (started st) + (length (xs @ bad # ys) - 1)"
      using all web_f64_deliver_length [OF assms(1), of "frames (xs @ ys)"]
      by (simp only: n)
    have "nextPlayTime (fst (web_session st (xs @ [bad])))
            = nextPlayTime (deliver web_handleDecodedChunk_f64 st (frames xs))"
      using web_session_one_failure [OF assms(3) _ bad assms(1), of "[]"] by simp
    also have "\<dots> = nextPlayTime (fst (web_session st xs))"
      using web_session_all_delivered [OF assms(3) assms(1) refl refl refl] by simp
    finally show ?thesis using all len by simp
  qed
  from simple web show ?thesis by blast
qed

theorem one_decode_failure_session_witness:
  "snd (simple_session (fresh\<lparr>audioContext := Some Running\<rparr>)
     ([(\<lparr>decoderState = Some Configured, clock = 0, decodeThrows = False\<rparr>,
        Resolved (Some [1]) False, Output \<lparr>duration = to_double 0.005\<rparr> 0)]
      @ (\<lparr>decoderState = Some Configured, clock = 0, decodeThrows = False\<rparr>,
        Resolved (Some [2]) False, DecodeError)
      # [(\<lparr>decoderState = Some Configured, clock = 0, decodeThrows = False\<rparr>,
        Resolved (Some [3]) False, Output \<lparr>duration = to_double 0.005\<rparr> 0)])) = Reading
   \<and> started (fst (simple_session (fresh\<lparr>audioContext := Some Running\<rparr>)
     ([(\<lparr>decoderState = Some Configured, clock = 0, decodeThrows = False\<rparr>,
        Resolved (Some [1]) False, Output \<lparr>duration = to_double 0.005\<rparr> 0)]
      @ (\<lparr>decoderState = Some Configured, clock = 0, decodeThrows = False\<rparr>,
        Resolved (Some [2]) False, DecodeError)
      # [(\<lparr>decoderState = Some Configured, clock = 0, decodeThrows = False\<rparr>,
        Resolved (Some [3]) False, Output \<lparr>duration = to_double 0.005\<rparr> 0)])))
     = [(0, 5764607523034235 / 2 ^ 60), (5764607523034235 / 2 ^ 60, 5764607523034235 / 2 ^ 60)]
   \<and> snd (web_session (fresh\<lparr>audioContext := Some Running\<rparr>)
     ([(\<lparr>decoderState = Some Configured, clock = 0, decodeThrows = False\<rparr>,
        Resolved (Some [1]) False, Output \<lparr>duration = to_double 0.005\<rparr> 0)]
      @ (\<lparr>decoderState = Some Configured, clock = 0, decodeThrows = True\<rparr>,
        Resolved (Some [2]) False, DecodeError)
      # [(\<lparr>decoderState = Some Configured, clock = 0, decodeThrows = False\<rparr>,
        Resolved (Some [3]) False, Output \<lparr>duration = to_double 0.005\<rparr> 0)])) = Reading
   \<and> started (fst (web_session (fresh\<lparr>audioContext := Some Running\<rparr>)
     ([(\<lparr>decoderState = Some Configured, clock = 0, decodeThrows = False\<rparr>,
        Resolved (Some [1]) False, Output \<lparr>duration = to_double 0.005\<rparr> 0)]
      @ (\<lparr>decoderState = Some Configured, clock = 0, decodeThrows = True\<rparr>,
        Resolved (Some [2]) False, DecodeError)
      # [(\<lparr>decoderState = Some Configured, clock = 0, decodeThrows = False\<rparr>,
        Resolved (Some [3]) False, Output \<lparr>duration = to_double 0.005\<rparr> 0)])))
     = [(0, 5764607523034235 / 2 ^ 60), (5764607523034235 / 2 ^ 60, 5764607523034235 / 2 ^ 60)]"
proof -
  let ?st = "fresh\<lparr>audioContext := Some Running\<rparr>"
  let ?ok = "\<lparr>decoderState = Some Configured, clock = 0, decodeThrows = False\<rparr>"
  let ?s1 = "(?ok, Resolved (Some [1]) False, Output \<lparr>duration = to_double 0.005\<rparr> 0)"
  let ?s3 = "(?ok, Resolved (Some [3]) False, Output \<lparr>duration = to_double 0.005\<rparr> 0)"
  let ?err = "(?ok, Resolved (Some [2]) False, DecodeError)"
  let ?thr = "(\<lparr>decoderState = Some Configured, clock = 0, decodeThrows = True\<rparr>,
        Resolved (Some [2]) False, DecodeError)"
  have c: "audioContext ?st = Some Running" "Running \<noteq> Closed" by simp_all
  have xs: "\<forall>s \<in> set [?s1]. delivered s" and ys: "\<forall>s \<in> set [?s3]. delivered s"
    by simp_all
  have e: "decode_error ?err" and t: "decode_error ?thr \<or> decode_throws ?thr" by simp_all
  have fr: "frames ([?s1] @ [?s3])
      = [(\<lparr>duration = to_double 0.005\<rparr>, 0), (\<lparr>duration = to_double 0.005\<rparr>, 0)]"
    by simp
  from one_decode_failure_session [OF c xs ys, of ?err] e
    one_decode_failure_session [OF c xs ys, of ?thr] t
  show ?thesis
    unfolding fr
    by (simp add: fresh_def simple_handleDecodedChunk_f64_def web_handleDecodedChunk_f64_def
        simple_scheduleTime_f64_def web_startAt_def double_eval)
qed

text \<open>
  Claim C8 as stated fails on the simple-js client when the \<^verbatim>\<open>decode\<close> call itself
  throws: nothing catches the exception inside the loop, so the session of three reads
  below is aborted at the second, the third read is never taken, and one frame is
  scheduled, not two.
\<close>

theorem simple_decode_throw_counterexample:
  "delivered (\<lparr>decoderState = Some Configured, clock = 0, decodeThrows = False\<rparr>,
        Resolved (Some [1]) False, Output \<lparr>duration = to_double 0.005\<rparr> 0)
   \<and> decode_throws (\<lparr>decoderState = Some Configured, clock = 0, decodeThrows = True\<rparr>,
        Resolved (Some [2]) False, DecodeError)
   \<and> delivered (\<lparr>decoderState = Some Configured, clock = 0, decodeThrows = False\<rparr>,
        Resolved (Some [3]) False, Output \<lparr>duration = to_double 0.005\<rparr> 0)
   \<and> snd (simple_session (fresh\<lparr>audioContext := Some Running\<rparr>)
     [(\<lparr>decoderState = Some Configured, clock = 0, decodeThrows = False\<rparr>,
        Resolved (Some [1]) False, Output \<lparr>duration = to_double 0.005\<rparr> 0),
      (\<lparr>decoderState = Some Configured, clock = 0, decodeThrows = True\<rparr>,
        Resolved (Some [2]) False, DecodeError),
      (\<lparr>decoderState = Some Configured, clock = 0, decodeThrows = False\<rparr>,
        Resolved (Some [3]) False, Output \<lparr>duration = to_double 0.005\<rparr> 0)]) = Aborted
   \<and> map fst (started (fst (simple_session (fresh\<lparr>audioContext := Some Running\<rparr>)
     [(\<lparr>decoderState = Some Configured, clock = 0, decodeThrows = False\<rparr>,
        Resolved (Some [1]) False, Output \<lparr>duration = to_double 0.005\<rparr> 0),
      (\<lparr>decoderState = Some Configured, clock = 0, decodeThrows = True\<rparr>,
        Resolved (Some [2]) False, DecodeError),
      (\<lparr>decoderState = Some Configured, clock = 0, decodeThrows = False\<rparr>,
        Resolved (Some [3]) False, Output \<lparr>duration = to_double 0.005\<rparr> 0)]))) = [0]
   \<and> length [0 :: real] \<noteq> 3 - 1
   \<and> map data (chunks (fst (simple_session (fresh\<lparr>audioContext := Some Running\<rparr>)
     [(\<lparr>decoderState = Some Configured, clock = 0, decodeThrows = False\<rparr>,
        Resolved (Some [1]) False, Output \<lparr>duration = to_double 0.005\<rparr> 0),
      (\<lparr>decoderState = Some Configured, clock = 0, decodeThrows = True\<rparr>,
        Resolved (Some [2]) False, DecodeError),
      (\<lparr>decoderState = Some Configured, clock = 0, decodeThrows = False\<rparr>,
        Resolved (Some [3]) False, Output \<lparr>duration = to_double 0.005\<rparr> 0)]))) = [[1], [2]]"
  by (simp add: fresh_def simple_on_value_def simple_handleDecodedChunk_f64_def
      simple_scheduleTime_f64_def FRAME_DURATION_MS_def Let_def)

section \<open>Properties of the Frame Ring Buffer\<close>

lemma push_capacity: "capacity (push q x) = capacity q"
  by (simp add: push_def split: list.splits)

lemma push_items:
  assumes "len q \<le> capacity q"
  shows "items (push q x) = drop (length (items q @ [x]) - capacity q) (items q @ [x])"
proof (cases "is_full q")
  case True
  then have full: "length (items q) = capacity q" by (simp add: is_full_def len_def)
  show ?thesis
  proof (cases "items q")
    case Nil
    with True full show ?thesis by (simp add: push_def)
  next
    case (Cons oldest rest)
    with True full show ?thesis by (auto simp add: push_def)
  qed
next
  case False
  with assms have "length (items q) < capacity q" by (simp add: is_full_def len_def)
  with False show ?thesis by (simp add: push_def)
qed

lemma push_len:
  assumes "len q \<le> capacity q"
  shows "len (push q x) \<le> capacity q"
  using assms unfolding len_def push_items [OF assms] by (simp add: len_def)

lemma pushes_capacity: "capacity (pushes q xs) = capacity q"
  by (induction xs arbitrary: q) (simp_all add: push_capacity)

lemma pushes_items:
  assumes "len q \<le> capacity q"
  shows "items (pushes q xs) = drop (length (items q @ xs) - capacity q) (items q @ xs)
       \<and> len (pushes q xs) \<le> capacity q"
  using assms
proof (induction xs arbitrary: q)
  case Nil
  then show ?case by (simp add: len_def)
next
  case (Cons x xs)
  let ?q = "push q x"
  let ?a = "length (items q @ [x]) - capacity q"
  let ?zs = "items q @ x # xs"
  have inv: "len ?q \<le> capacity ?q"
    using push_len [OF Cons.prems] by (simp add: push_capacity)
  have q: "items ?q = drop ?a (items q @ [x])"
    by (rule push_items [OF Cons.prems])
  have a: "?a \<le> length (items q @ [x])" by simp
  have "drop n ys @ xs = drop n (ys @ xs)" if "n \<le> length ys" for n and ys :: "'a list"
    using that by simp
  from this [OF a] have app: "items ?q @ xs = drop ?a ?zs"
    unfolding q by simp
  have sum: "length (items ?q @ xs) - capacity q + ?a = length ?zs - capacity q"
    using Cons.prems unfolding q len_def by (cases "length (items q) = capacity q") simp_all
  have "items (pushes ?q xs) = drop (length (items ?q @ xs) - capacity q) (items ?q @ xs)"
    using Cons.IH [OF inv] by (simp add: push_capacity)
  also have "\<dots> = drop (length (items ?q @ xs) - capacity q) (drop ?a ?zs)"
    by (simp only: app)
  also have "\<dots> = drop (length ?zs - capacity q) ?zs"
    by (simp only: drop_drop sum)
  finally show ?case using Cons.IH [OF inv] by (simp add: push_capacity)
qed

text \<open>
  Claim C9. Pushing any sequence \<open>xs\<close> into an empty buffer of capacity \<open>C\<close> never makes
  the occupancy exceed \<open>C\<close>, also after any prefix of the pushes; once more than \<open>C\<close> items
  have been pushed the buffer is full and holds exactly the last \<open>C\<close> of them, in the
  order they were pushed.
\<close>

theorem ring_keeps_last_items:
  "len (pushes (with_capacity C) xs) \<le> C
   \<and> len (pushes (with_capacity C) (take n xs)) \<le> C
   \<and> (C < length xs \<longrightarrow>
        items (pushes (with_capacity C) xs) = drop (length xs - C) xs
      \<and> len (pushes (with_capacity C) xs) = C)"
proof -
  have inv: "len (with_capacity C :: 'a ring) \<le> capacity (with_capacity C :: 'a ring)"
    by (simp add: with_capacity_def len_def)
  have "items (pushes (with_capacity C) xs) = drop (length xs - C) xs"
    using pushes_items [OF inv, of xs] by (simp add: with_capacity_def)
  moreover have "len (pushes (with_capacity C) ys) \<le> C" for ys :: "'a list"
    using pushes_items [OF inv, of ys] by (simp add: with_capacity_def)
  ultimately show ?thesis by (auto simp add: len_def)
qed

theorem ring_keeps_last_items_witness:
  "(2::nat) < length [10, 20, 30 :: nat]
   \<and> items (pushes (with_capacity 2) [10, 20, 30 :: nat]) = [20, 30]
   \<and> len (pushes (with_capacity 2) [10, 20, 30 :: nat]) = 2"
  using ring_keeps_last_items [where C = 2 and xs = "[10, 20, 30 :: nat]" and n = 0]
  by (simp add: with_capacity_def push_def is_full_def len_def)

end
